theory Spec2Isabelle
  imports Complex_Main "HOL-Library.Sublist" "HOL-Library.Multiset" "HOL-Library.AList"
begin

section \<open>Strings\<close>

text \<open>
  A JavaScript string is modelled as a \<^typ>\<open>string\<close>: the list of the bytes of its UTF-8
  encoding.  On well-formed text a byte-wise substring test agrees with the test on code
  units, because no UTF-8 encoding of a character occurs inside the encoding of another.
\<close>

text \<open>\<^verbatim>\<open>s.includes(t)\<close>: \<open>t\<close> occurs in \<open>s\<close> as a contiguous substring.\<close>

fun includes_str :: "string \<Rightarrow> string \<Rightarrow> bool" where
  "includes_str [] t = (t = [])"
| "includes_str (c # cs) t = (prefix t (c # cs) \<or> includes_str cs t)"

text \<open>
  \<^verbatim>\<open>s.toLowerCase()\<close> is a function of the runtime: it folds every cased letter of
  Unicode, and a capital sigma according to its neighbours.  Every function below that
  calls it takes it as its first argument \<open>toLowerCase\<close>, and every theorem is proved for
  every function in its place.  On text whose cased letters are all ASCII letters the
  runtime's function is \<open>asciiLowerCase\<close>, which folds the letters A to Z and keeps every
  other byte; the examples, whose cased letters are ASCII letters, are evaluated with it.
\<close>

definition upperLetters :: string where
  "upperLetters = ''ABCDEFGHIJKLMNOPQRSTUVWXYZ''"

definition lowerLetters :: string where
  "lowerLetters = ''abcdefghijklmnopqrstuvwxyz''"

definition lowerChar :: "char \<Rightarrow> char" where
  "lowerChar c = (case map_of (zip upperLetters lowerLetters) c of Some d \<Rightarrow> d | None \<Rightarrow> c)"

definition asciiLowerCase :: "string \<Rightarrow> string" where
  "asciiLowerCase s = map lowerChar s"

definition isDigit :: "char \<Rightarrow> bool" where
  "isDigit c = (c \<in> set ''0123456789'')"

definition digitValue :: "char \<Rightarrow> int" where
  "digitValue c = int (of_char c) - 48"

section \<open>Numbers\<close>

text \<open>
  The numbers of the program are IEEE doubles.  Every integer from 0 to \<open>2^53\<close> is a
  double, and a product or sum of such integers is computed exactly when its value is at
  most \<open>2^53\<close>.  The duration parser computes with numbers that are not negative, so a
  result is either such an integer, \<open>Exact n\<close>, or it comes from an operation whose true
  value is above \<open>2^53\<close>: then it is that value rounded to a double, or \<^verbatim>\<open>Infinity\<close>, in
  any case at least \<open>2^53\<close> and from then on never smaller.  Such a result is \<open>Beyond\<close>;
  which double it is, is not modelled.
\<close>

datatype number = Exact int | Beyond

definition maxExact :: int where
  "maxExact = 2 ^ 53"

definition exactOrBeyond :: "int \<Rightarrow> number" where
  "exactOrBeyond n = (if n \<le> maxExact then Exact n else Beyond)"

text \<open>\<open>a * k\<close> for a positive integer constant \<open>k\<close>, and \<open>a + b\<close>.\<close>

definition timesNum :: "number \<Rightarrow> int \<Rightarrow> number" where
  "timesNum a k = (case a of Exact n \<Rightarrow> exactOrBeyond (n * k) | Beyond \<Rightarrow> Beyond)"

definition plusNum :: "number \<Rightarrow> number \<Rightarrow> number" where
  "plusNum a b =
     (case a of
        Exact m \<Rightarrow> (case b of Exact n \<Rightarrow> exactOrBeyond (m + n) | Beyond \<Rightarrow> Beyond)
      | Beyond \<Rightarrow> Beyond)"

text \<open>
  The comparisons \<open>a < k\<close>, \<open>a > k\<close>, \<open>a >= k\<close> and \<open>a <= k\<close> with an integer constant
  \<open>k\<close> below \<open>2^53\<close>.
\<close>

definition numLt :: "number \<Rightarrow> int \<Rightarrow> bool" where
  "numLt a k = (case a of Exact n \<Rightarrow> n < k | Beyond \<Rightarrow> False)"

definition numGt :: "number \<Rightarrow> int \<Rightarrow> bool" where
  "numGt a k = (case a of Exact n \<Rightarrow> n > k | Beyond \<Rightarrow> True)"

definition numGe :: "number \<Rightarrow> int \<Rightarrow> bool" where
  "numGe a k = (case a of Exact n \<Rightarrow> n \<ge> k | Beyond \<Rightarrow> True)"

definition numLe :: "number \<Rightarrow> int \<Rightarrow> bool" where
  "numLe a k = (case a of Exact n \<Rightarrow> n \<le> k | Beyond \<Rightarrow> False)"

text \<open>The value of a run of decimal digits, as an integer.\<close>

definition decimalValue :: "string \<Rightarrow> int" where
  "decimalValue ds = foldl (\<lambda>a d. 10 * a + digitValue d) 0 ds"

text \<open>
  \<^verbatim>\<open>parseInt(ds, 10)\<close> on a run of decimal digits, the only arguments it gets in this
  program: the value of the run when that is at most \<open>2^53\<close>, and a double from
  \<open>2^53\<close> on otherwise.
\<close>

definition parseInt :: "string \<Rightarrow> number" where
  "parseInt ds = exactOrBeyond (decimalValue ds)"

section \<open>Duration strings\<close>

text \<open>
  \<^verbatim>\<open>isoDuration.match(/PT(?:(\d+)H)?(?:(\d+)M)?(?:(\d+)S)?/)\<close>.  The expression is not
  anchored and everything after \<open>PT\<close> is optional, so the match starts at the leftmost
  occurrence of \<open>PT\<close>; \<open>afterPT\<close> returns the text behind it, and \<open>None\<close> when the
  string has no \<open>PT\<close> (the match is \<^verbatim>\<open>null\<close>).
\<close>

fun afterPT :: "string \<Rightarrow> string option" where
  "afterPT (a # b # cs) =
     (if a = CHR ''P'' \<and> b = CHR ''T'' then Some cs else afterPT (b # cs))"
| "afterPT _ = None"

text \<open>
  One optional group \<^verbatim>\<open>(?:(\d+)X)?\<close> at the front of \<open>r\<close>: the longest digit run, which
  must be non-empty and followed by the unit letter; otherwise the group matches nothing
  and captures nothing (giving digits back cannot help, the next character is then a
  digit).  Returns the capture and the text left.
\<close>

definition component :: "char \<Rightarrow> string \<Rightarrow> string option \<times> string" where
  "component u r =
     (let ds = takeWhile isDigit r; rest = dropWhile isDigit r
      in if ds \<noteq> [] \<and> rest \<noteq> [] \<and> hd rest = u then (Some ds, tl rest) else (None, r))"

definition regexMatch :: "string \<Rightarrow> (string option \<times> string option \<times> string option) option" where
  "regexMatch isoDuration =
     (case afterPT isoDuration of
        None \<Rightarrow> None
      | Some r \<Rightarrow>
          (let (h, r1) = component CHR ''H'' r;
               (m, r2) = component CHR ''M'' r1;
               (s, r3) = component CHR ''S'' r2
           in Some (h, m, s)))"

text \<open>\<^verbatim>\<open>parseInt(matches[k] || '0', 10)\<close>\<close>

definition groupValue :: "string option \<Rightarrow> number" where
  "groupValue g = (case g of None \<Rightarrow> parseInt ''0'' | Some ds \<Rightarrow> parseInt ds)"

text \<open>\<^verbatim>\<open>h * 3600 + m * 60 + s\<close>, evaluated from the left.\<close>

definition totalSeconds :: "number \<Rightarrow> number \<Rightarrow> number \<Rightarrow> number" where
  "totalSeconds h m s = plusNum (plusNum (timesNum h 3600) (timesNum m 60)) s"

text \<open>\<open>parseDurationToSeconds\<close> of the scoring module (it tests for the empty string first).\<close>

definition parseDurationToSeconds :: "string \<Rightarrow> number" where
  "parseDurationToSeconds isoDuration =
     (if isoDuration = [] then Exact 0
      else case regexMatch isoDuration of
             None \<Rightarrow> Exact 0
           | Some (h, m, s) \<Rightarrow> totalSeconds (groupValue h) (groupValue m) (groupValue s))"

text \<open>\<open>parseDurationToSeconds\<close> of \<^verbatim>\<open>src/utils/recommendation.ts\<close> (no test for the empty string).\<close>

definition parseDurationToSeconds_utils :: "string \<Rightarrow> number" where
  "parseDurationToSeconds_utils isoDuration =
     (case regexMatch isoDuration of
        None \<Rightarrow> Exact 0
      | Some (h, m, s) \<Rightarrow> totalSeconds (groupValue h) (groupValue m) (groupValue s))"

section \<open>Data model\<close>

text \<open>
  The fields of \<open>Video\<close> and \<open>Channel\<close> that the recommendation code reads.  The field
  \<open>id\<close> of the source is \<open>idV\<close> for a video and \<open>idC\<close> for a channel; an optional field
  is an \<open>option\<close>, \<open>None\<close> standing for \<^verbatim>\<open>undefined\<close>.
\<close>

record Video =
  idV :: string
  title :: string
  channelId :: string
  channelName :: string
  channelAvatarUrl :: string
  descriptionSnippet :: "string option"
  uploadedAt :: string
  isoDuration :: string

record Channel =
  idC :: string
  name :: string
  avatarUrl :: string

text \<open>\<open>RecommendationSource\<close> of the scoring module.\<close>

record RecommendationSource =
  searchHistory :: "string list"
  watchHistory :: "Video list"
  subscribedChannels :: "Channel list"
  preferredGenres :: "string list"
  preferredChannels :: "string list"
  preferredDurations :: "string list option"
  preferredFreshness :: "string option"
  discoveryMode :: "string option"
  ngKeywords :: "string list option"
  prefDepth :: "string option"
  prefVocal :: "string option"
  prefEra :: "string option"
  prefRegion :: "string option"
  prefLive :: "string option"
  prefInfoEnt :: "string option"
  prefPacing :: "string option"
  prefVisual :: "string option"
  prefCommunity :: "string option"
  page :: int

text \<open>\<open>ScoredVideo\<close>: a video with its score and the trace of reasons.\<close>

record ScoredVideo = Video +
  score :: int
  debugReason :: "string list"

section \<open>The scoring engine\<close>

text \<open>\<^verbatim>\<open>video.descriptionSnippet || ''\<close>\<close>

definition orEmpty :: "string option \<Rightarrow> string" where
  "orEmpty x = (case x of None \<Rightarrow> [] | Some d \<Rightarrow> d)"

definition lowerChannel :: "(string \<Rightarrow> string) \<Rightarrow> 'a Video_scheme \<Rightarrow> string" where
  "lowerChannel toLowerCase video = toLowerCase (channelName video)"

text \<open>\<^verbatim>\<open>`${lowerTitle} ${lowerDesc} ${lowerChannel}`\<close>\<close>

definition fullText :: "(string \<Rightarrow> string) \<Rightarrow> 'a Video_scheme \<Rightarrow> string" where
  "fullText toLowerCase video =
     toLowerCase (title video) @ '' '' @ toLowerCase (orEmpty (descriptionSnippet video))
       @ '' '' @ lowerChannel toLowerCase video"

text \<open>
  Rule 1, the loop over \<open>source.ngKeywords\<close>: the first keyword whose lower-case form the
  text includes, if there is one.
\<close>

definition ngHit :: "(string \<Rightarrow> string) \<Rightarrow> 'a Video_scheme \<Rightarrow> RecommendationSource \<Rightarrow> string option" where
  "ngHit toLowerCase video source =
     (case ngKeywords source of
        None \<Rightarrow> None
      | Some kws \<Rightarrow> find (\<lambda>ng. includes_str (fullText toLowerCase video) (toLowerCase ng)) kws)"

text \<open>
  The rules after the NG filter update the two local variables \<open>score\<close> and \<open>reasons\<close>;
  each rule is a function on that pair.
\<close>

type_synonym tally = "int \<times> string list"

text \<open>Rule 2, duration.  \<open>durationMatch\<close> is the flag of the same name.\<close>

definition durationMatch :: "string list \<Rightarrow> number \<Rightarrow> bool" where
  "durationMatch ds sec =
     ((''short'' \<in> set ds \<and> numGt sec 0 \<and> numLt sec 240)
      \<or> (''medium'' \<in> set ds \<and> numGe sec 240 \<and> numLe sec 1200)
      \<or> (''long'' \<in> set ds \<and> numGt sec 1200))"

definition durationRule :: "'a Video_scheme \<Rightarrow> RecommendationSource \<Rightarrow> tally \<Rightarrow> tally" where
  "durationRule video source = (\<lambda>(score, reasons).
     case preferredDurations source of
       None \<Rightarrow> (score, reasons)
     | Some ds \<Rightarrow>
         if length ds > 0 then
           (let sec = parseDurationToSeconds (isoDuration video)
            in if durationMatch ds sec
               then (score + 200, reasons @ [''Duration Match (Priority)''])
               else if numGt sec 0
               then (score - 500, reasons @ [''Duration Mismatch (Penalty)''])
               else (score, reasons))
         else (score, reasons))"

text \<open>Rule 3, preferred channels.\<close>

definition preferredChannelRule :: "(string \<Rightarrow> string) \<Rightarrow> 'a Video_scheme \<Rightarrow> RecommendationSource
    \<Rightarrow> tally \<Rightarrow> tally" where
  "preferredChannelRule toLowerCase video source = (\<lambda>(score, reasons).
     if list_ex (\<lambda>c. includes_str (lowerChannel toLowerCase video) (toLowerCase c))
          (preferredChannels source)
     then (score + 50, reasons @ [''Preferred Channel''])
     else (score, reasons))"

text \<open>Rule 4, subscribed channels.\<close>

definition subscribedRule :: "(string \<Rightarrow> string) \<Rightarrow> 'a Video_scheme \<Rightarrow> RecommendationSource
    \<Rightarrow> tally \<Rightarrow> tally" where
  "subscribedRule toLowerCase video source = (\<lambda>(score, reasons).
     if list_ex (\<lambda>c. idC c = channelId video \<or> toLowerCase (name c) = lowerChannel toLowerCase video)
          (subscribedChannels source)
     then (score + 30, reasons @ [''Subscribed Channel''])
     else (score, reasons))"

text \<open>Rule 5, one step of \<open>preferredGenres.forEach\<close> and the whole loop.\<close>

definition genreStep :: "(string \<Rightarrow> string) \<Rightarrow> 'a Video_scheme \<Rightarrow> tally \<Rightarrow> string \<Rightarrow> tally" where
  "genreStep toLowerCase video = (\<lambda>(score, reasons) genre.
     if includes_str (fullText toLowerCase video) (toLowerCase genre)
     then (score + 40, reasons @ [''Genre Match: '' @ genre])
     else (score, reasons))"

definition genreRule :: "(string \<Rightarrow> string) \<Rightarrow> 'a Video_scheme \<Rightarrow> RecommendationSource
    \<Rightarrow> tally \<Rightarrow> tally" where
  "genreRule toLowerCase video source t =
     foldl (genreStep toLowerCase video) t (preferredGenres source)"

text \<open>
  Rule 6.  The table \<open>tagKeywords\<close>, in the order of the source; Japanese keywords are
  written as their UTF-8 bytes.
\<close>

definition tagKeywords :: "(string \<times> string list) list" where
  "tagKeywords =
     [(''casual'',
        [''short'', ''funny'', ''meme'',
         [CHR 0xE5, CHR 0x88, CHR 0x87, CHR 0xE3, CHR 0x82, CHR 0x8A, CHR 0xE6, CHR 0x8A, CHR 0x9C, CHR 0xE3, CHR 0x81, CHR 0x8D],
         [CHR 0xE3, CHR 0x81, CHR 0xBE, CHR 0xE3, CHR 0x81, CHR 0xA8, CHR 0xE3, CHR 0x82, CHR 0x81],
         [CHR 0xE7, CHR 0x88, CHR 0x86, CHR 0xE7, CHR 0xAC, CHR 0x91]]),
      (''deep'',
        [''documentary'', ''history'', ''analysis'',
         [CHR 0xE8, CHR 0xA7, CHR 0xA3, CHR 0xE8, CHR 0xAA, CHR 0xAC],
         [CHR 0xE8, CHR 0x80, CHR 0x83, CHR 0xE5, CHR 0xAF, CHR 0x9F],
         [CHR 0xE8, CHR 0xAC, CHR 0x9B, CHR 0xE5, CHR 0xBA, CHR 0xA7],
         [CHR 0xE5, CHR 0xBE, CHR 0xB9, CHR 0xE5, CHR 0xBA, CHR 0x95],
         [CHR 0xE5, CHR 0xAE, CHR 0x8C, CHR 0xE5, CHR 0x85, CHR 0xA8]]),
      (''instrumental'',
        [''instrumental'', ''no talking'', ''off vocal'', ''bgm'', ''asmr'',
         [CHR 0xE4, CHR 0xBD, CHR 0x9C, CHR 0xE6, CHR 0xA5, CHR 0xAD, CHR 0xE7, CHR 0x94, CHR 0xA8]]),
      (''vocal'',
        [''cover'', ''talk'', ''radio'',
         [CHR 0xE9, CHR 0x9B, CHR 0x91, CHR 0xE8, CHR 0xAB, CHR 0x87],
         [CHR 0xE6, CHR 0xAD, CHR 0x8C, CHR 0xE3, CHR 0x81, CHR 0xA3, CHR 0xE3, CHR 0x81, CHR 0xA6, CHR 0xE3, CHR 0x81, CHR 0xBF, CHR 0xE3, CHR 0x81, CHR 0x9F],
         ''karaoke'']),
      (''live'',
        [''live'', ''stream'', ''archive'',
         [CHR 0xE9, CHR 0x85, CHR 0x8D, CHR 0xE4, CHR 0xBF, CHR 0xA1],
         [CHR 0xE7, CHR 0x94, CHR 0x9F, CHR 0xE6, CHR 0x94, CHR 0xBE, CHR 0xE9, CHR 0x80, CHR 0x81]]),
      (''solo'',
        [''solo'', ''playing'', ''play'',
         [CHR 0xE3, CHR 0x81, CHR 0xBC, CHR 0xE3, CHR 0x81, CHR 0xA3, CHR 0xE3, CHR 0x81, CHR 0xA1],
         [CHR 0xE4, CHR 0xB8, CHR 0x80, CHR 0xE4, CHR 0xBA, CHR 0xBA]]),
      (''collab'',
        [''collab'', ''with'', ''feat'',
         [CHR 0xE3, CHR 0x82, CHR 0xB3, CHR 0xE3, CHR 0x83, CHR 0xA9, CHR 0xE3, CHR 0x83, CHR 0x9C],
         [CHR 0xE3, CHR 0x82, CHR 0xB2, CHR 0xE3, CHR 0x82, CHR 0xB9, CHR 0xE3, CHR 0x83, CHR 0x88]]),
      (''entertainment'',
        [''fun'', ''variety'',
         [CHR 0xE3, CHR 0x82, CHR 0xA8, CHR 0xE3, CHR 0x83, CHR 0xB3, CHR 0xE3, CHR 0x82, CHR 0xBF, CHR 0xE3, CHR 0x83, CHR 0xA1],
         [CHR 0xE3, CHR 0x83, CHR 0x89, CHR 0xE3, CHR 0x83, CHR 0x83, CHR 0xE3, CHR 0x82, CHR 0xAD, CHR 0xE3, CHR 0x83, CHR 0xAA],
         [CHR 0xE4, CHR 0xBC, CHR 0x81, CHR 0xE7, CHR 0x94, CHR 0xBB]]),
      (''education'',
        [''study'', ''learn'', ''lesson'',
         [CHR 0xE8, CHR 0xAC, CHR 0x9B, CHR 0xE5, CHR 0xBA, CHR 0xA7],
         [CHR 0xE5, CHR 0x8B, CHR 0x89, CHR 0xE5, CHR 0xBC, CHR 0xB7],
         [CHR 0xE3, CHR 0x83, CHR 0x8B, CHR 0xE3, CHR 0x83, CHR 0xA5, CHR 0xE3, CHR 0x83, CHR 0xBC, CHR 0xE3, CHR 0x82, CHR 0xB9]]),
      (''avatar'',
        [''vtuber'', ''anime'', ''3d'', ''2d'', ''live2d'']),
      (''real'',
        [''vlog'', ''face'', ''real'',
         [CHR 0xE5, CHR 0xAE, CHR 0x9F, CHR 0xE5, CHR 0x86, CHR 0x99],
         [CHR 0xE9, CHR 0xA1, CHR 0x94, CHR 0xE5, CHR 0x87, CHR 0xBA, CHR 0xE3, CHR 0x81, CHR 0x97]])]"

text \<open>
  \<^verbatim>\<open>tagKeywords[prefVal]\<close> reads a property of an object: for a name that is not a key of
  the table it finds the properties that every object inherits.  These are their names.
\<close>

definition inheritedKeys :: "string list" where
  "inheritedKeys =
     [''constructor'', ''hasOwnProperty'', ''isPrototypeOf'', ''propertyIsEnumerable'',
      ''toLocaleString'', ''toString'', ''valueOf'', ''__proto__'', ''__defineGetter__'',
      ''__defineSetter__'', ''__lookupGetter__'', ''__lookupSetter__'']"

text \<open>An exception that a function of the program throws.\<close>

datatype error = TypeError

text \<open>
  \<open>checkContext(prefVal, key)\<close>; the second argument of the source is never read.  For a
  key of the table the keywords are tested.  For an inherited name the value found is a
  function or an object, which passes the test \<^verbatim>\<open>tagKeywords[prefVal]\<close> and has no method
  \<^verbatim>\<open>some\<close>: the call throws a \<^verbatim>\<open>TypeError\<close>.  For any other name nothing is found.
\<close>

definition checkContext :: "(string \<Rightarrow> string) \<Rightarrow> 'a Video_scheme \<Rightarrow> string option
    \<Rightarrow> tally \<Rightarrow> error + tally" where
  "checkContext toLowerCase video prefVal = (\<lambda>(score, reasons).
     case prefVal of
       None \<Rightarrow> Inr (score, reasons)
     | Some p \<Rightarrow>
         if p \<noteq> [] \<and> p \<noteq> ''any'' then
           (case map_of tagKeywords p of
              Some ks \<Rightarrow>
                if list_ex (\<lambda>k. includes_str (fullText toLowerCase video) k) ks
                then Inr (score + 30, reasons @ [''Context: '' @ p])
                else Inr (score, reasons)
            | None \<Rightarrow>
                if p \<in> set inheritedKeys then Inl TypeError else Inr (score, reasons))
         else Inr (score, reasons))"

text \<open>Sequencing: what follows a statement that threw is not run.\<close>

definition andThen :: "error + 'a \<Rightarrow> ('a \<Rightarrow> error + 'b) \<Rightarrow> error + 'b" where
  "andThen r f = (case r of Inl e \<Rightarrow> Inl e | Inr x \<Rightarrow> f x)"

text \<open>The six calls of \<open>checkContext\<close>, in the order of the source.\<close>

definition contextRule :: "(string \<Rightarrow> string) \<Rightarrow> 'a Video_scheme \<Rightarrow> RecommendationSource
    \<Rightarrow> tally \<Rightarrow> error + tally" where
  "contextRule toLowerCase video source t =
     andThen (andThen (andThen (andThen (andThen
       (checkContext toLowerCase video (prefDepth source) t)
       (checkContext toLowerCase video (prefVocal source)))
       (checkContext toLowerCase video (prefLive source)))
       (checkContext toLowerCase video (prefCommunity source)))
       (checkContext toLowerCase video (prefInfoEnt source)))
       (checkContext toLowerCase video (prefVisual source))"

text \<open>Rule 7, freshness.  The four markers of the source, the Japanese ones as UTF-8 bytes.\<close>

definition minutesAgoJa :: string where
  "minutesAgoJa = [CHR 0xE5, CHR 0x88, CHR 0x86, CHR 0xE5, CHR 0x89, CHR 0x8D]"

definition hoursAgoJa :: string where
  "hoursAgoJa = [CHR 0xE6, CHR 0x99, CHR 0x82, CHR 0xE9, CHR 0x96, CHR 0x93, CHR 0xE5, CHR 0x89, CHR 0x8D]"

definition daysAgoJa :: string where
  "daysAgoJa = [CHR 0xE6, CHR 0x97, CHR 0xA5, CHR 0xE5, CHR 0x89, CHR 0x8D]"

definition isFresh :: "string \<Rightarrow> bool" where
  "isFresh up =
     (includes_str up minutesAgoJa \<or> includes_str up hoursAgoJa
      \<or> includes_str up daysAgoJa \<or> includes_str up ''hours ago'')"

definition freshnessRule :: "'a Video_scheme \<Rightarrow> RecommendationSource \<Rightarrow> tally \<Rightarrow> tally" where
  "freshnessRule video source = (\<lambda>(score, reasons).
     if preferredFreshness source = Some ''new'' then
       (if isFresh (uploadedAt video) then (score + 20, reasons @ [''Fresh''])
        else (score, reasons))
     else (score, reasons))"

text \<open>
  \<open>calculateScore\<close>: the NG filter returns at once; otherwise rules 2 to 7 run in order.
  The result is the returned pair, or the exception that rule 6 threw.
\<close>

definition calculateScore :: "(string \<Rightarrow> string) \<Rightarrow> 'a Video_scheme \<Rightarrow> RecommendationSource
    \<Rightarrow> error + tally" where
  "calculateScore toLowerCase video source =
     (case ngHit toLowerCase video source of
        Some ng \<Rightarrow> Inr (- 10000, [''NG Keyword: '' @ ng])
      | None \<Rightarrow>
          (case contextRule toLowerCase video source
                  (genreRule toLowerCase video source
                    (subscribedRule toLowerCase video source
                      (preferredChannelRule toLowerCase video source
                        (durationRule video source (0, []))))) of
             Inl e \<Rightarrow> Inl e
           | Inr t \<Rightarrow> Inr (freshnessRule video source t)))"

section \<open>The strict-filter pipeline: aggregation and ranking\<close>

text \<open>
  A promise is modelled by its outcome: fulfilled with a value or rejected with a reason.
  An entry of the array that \<^verbatim>\<open>Promise.allSettled\<close> resolves to is such an outcome.
\<close>

datatype 'a promise = Fulfilled 'a | Rejected string

text \<open>
  \<open>rawCandidates\<close>: the values of the fulfilled entries, appended in the order of the
  requests.  (A fulfilled value is a list by its type, so \<^verbatim>\<open>Array.isArray\<close> holds for it.)
\<close>

definition collectCandidates :: "'v list promise list \<Rightarrow> 'v list" where
  "collectCandidates results =
     foldl (\<lambda>rawCandidates res.
              case res of Fulfilled vs \<Rightarrow> rawCandidates @ vs | Rejected e \<Rightarrow> rawCandidates)
       [] results"

text \<open>The loop \<open>Deduplicate\<close>: one step on \<open>(seenIds, uniqueCandidates)\<close>, and the loop.\<close>

definition dedupStep :: "string set \<times> 'a Video_scheme list \<Rightarrow> 'a Video_scheme
    \<Rightarrow> string set \<times> 'a Video_scheme list" where
  "dedupStep = (\<lambda>(seenIds, uniqueCandidates) v.
     if idV v \<notin> seenIds then (insert (idV v) seenIds, uniqueCandidates @ [v])
     else (seenIds, uniqueCandidates))"

definition deduplicate :: "'a Video_scheme list \<Rightarrow> 'a Video_scheme list" where
  "deduplicate rawCandidates = snd (foldl dedupStep ({}, []) rawCandidates)"

text \<open>\<^verbatim>\<open>{ ...video, score, debugReason: reasons }\<close>\<close>

definition scoreVideo :: "Video \<Rightarrow> tally \<Rightarrow> ScoredVideo" where
  "scoreVideo video = (\<lambda>(sc, reasons). Video.extend video (ScoredVideo.fields sc reasons))"

text \<open>
  \<^verbatim>\<open>uniqueCandidates.map(video => ...)\<close>: the candidates are scored in order, and an
  exception of \<open>calculateScore\<close> ends the loop and the function.
\<close>

fun scoredVideos :: "(string \<Rightarrow> string) \<Rightarrow> RecommendationSource \<Rightarrow> Video list
    \<Rightarrow> error + ScoredVideo list" where
  "scoredVideos toLowerCase sources [] = Inr []"
| "scoredVideos toLowerCase sources (video # rest) =
     (case calculateScore toLowerCase video sources of
        Inl e \<Rightarrow> Inl e
      | Inr t \<Rightarrow>
          (case scoredVideos toLowerCase sources rest of
             Inl e \<Rightarrow> Inl e
           | Inr vs \<Rightarrow> Inr (scoreVideo video t # vs)))"

text \<open>
  \<^verbatim>\<open>validVideos.sort((a, b) => b.score - a.score)\<close>: the sort of the runtime is stable, as
  is \<open>sort_key\<close>; descending by score is ascending by the negated score.
\<close>

definition sortByScoreDesc :: "ScoredVideo list \<Rightarrow> ScoredVideo list" where
  "sortByScoreDesc vs = sort_key (\<lambda>v. - score v) vs"

definition validVideos :: "ScoredVideo list \<Rightarrow> ScoredVideo list" where
  "validVideos scored = filter (\<lambda>v. score v > - 100) scored"

text \<open>Scoring, threshold, sort and \<^verbatim>\<open>slice(0, 50)\<close>.\<close>

definition rankCandidates :: "(string \<Rightarrow> string) \<Rightarrow> RecommendationSource \<Rightarrow> Video list
    \<Rightarrow> error + ScoredVideo list" where
  "rankCandidates toLowerCase sources uniqueCandidates =
     (case scoredVideos toLowerCase sources uniqueCandidates of
        Inl e \<Rightarrow> Inl e
      | Inr scored \<Rightarrow> Inr (take 50 (sortByScoreDesc (validVideos scored))))"

text \<open>
  The part of \<open>getDeeplyAnalyzedRecommendations\<close> (scoring module) behind the join of the
  requests: from the settled results to the returned list.
\<close>

definition analyzeSettled :: "(string \<Rightarrow> string) \<Rightarrow> RecommendationSource \<Rightarrow> Video list promise list
    \<Rightarrow> error + ScoredVideo list" where
  "analyzeSettled toLowerCase sources results =
     rankCandidates toLowerCase sources (deduplicate (collectCandidates results))"

section \<open>The pool mixer\<close>

text \<open>
  The lists of \<open>mixFeeds\<close> hold references to objects: \<^verbatim>\<open>discoveryList.includes(v)\<close>
  compares references, \<^verbatim>\<open>candidate.id\<close> reads a field.  An element is therefore a value
  of any type \<open>'v\<close> (the reference) and \<open>ident\<close> reads its id; with \<open>'v\<close> the type of
  videos and \<open>ident = idV\<close>, two objects with equal fields are one element.  The ratio is
  a rational number and the quotient is exact (the runtime rounds it to a double).
\<close>

record 'v mixState =
  result :: "'v list"
  seenIds :: "string set"
  idxA :: nat
  idxB :: nat

text \<open>One iteration of the loop of \<open>mixFeeds\<close>.\<close>

definition mixStep :: "('v \<Rightarrow> string) \<Rightarrow> 'v list \<Rightarrow> 'v list \<Rightarrow> rat \<Rightarrow> 'v mixState \<Rightarrow> 'v mixState" where
  "mixStep ident discoveryList comfortList discoveryRatio st =
     (let currentCountA = length (filter (\<lambda>v. v \<in> set discoveryList) (result st));
          currentTotal = length (result st) + 1;
          pickFromA =
            (if idxA st < length discoveryList \<and> idxB st < length comfortList
             then of_nat currentCountA / of_nat currentTotal < discoveryRatio
             else idxA st < length discoveryList);
          (candidate, st1) =
            (if pickFromA \<and> idxA st < length discoveryList
             then (Some (discoveryList ! idxA st), st\<lparr>idxA := idxA st + 1\<rparr>)
             else if idxB st < length comfortList
             then (Some (comfortList ! idxB st), st\<lparr>idxB := idxB st + 1\<rparr>)
             else (None, st))
      in case candidate of
           None \<Rightarrow> st1
         | Some c \<Rightarrow>
             if ident c \<notin> seenIds st1
             then st1\<lparr>seenIds := insert (ident c) (seenIds st1), result := result st1 @ [c]\<rparr>
             else st1)"

text \<open>The loop runs \<open>totalLength\<close> times.\<close>

fun mixLoop :: "('v \<Rightarrow> string) \<Rightarrow> 'v list \<Rightarrow> 'v list \<Rightarrow> rat \<Rightarrow> nat \<Rightarrow> 'v mixState \<Rightarrow> 'v mixState" where
  "mixLoop ident discoveryList comfortList discoveryRatio 0 st = st"
| "mixLoop ident discoveryList comfortList discoveryRatio (Suc n) st =
     mixLoop ident discoveryList comfortList discoveryRatio n
       (mixStep ident discoveryList comfortList discoveryRatio st)"

definition mixFeeds :: "('v \<Rightarrow> string) \<Rightarrow> 'v list \<Rightarrow> 'v list \<Rightarrow> rat \<Rightarrow> 'v list" where
  "mixFeeds ident discoveryList comfortList discoveryRatio =
     (let totalLength = length discoveryList + length comfortList
      in result (mixLoop ident discoveryList comfortList discoveryRatio totalLength
           \<lparr>result = [], seenIds = {}, idxA = 0, idxB = 0\<rparr>))"

section \<open>Promises, remote calls and randomness\<close>

text \<open>\<^verbatim>\<open>p.then(f)\<close> for a function \<open>f\<close> that does not throw, and \<^verbatim>\<open>p.catch(() => [])\<close>.\<close>

definition thenP :: "('a \<Rightarrow> 'b) \<Rightarrow> 'a promise \<Rightarrow> 'b promise" where
  "thenP f p = (case p of Fulfilled x \<Rightarrow> Fulfilled (f x) | Rejected e \<Rightarrow> Rejected e)"

definition catchEmpty :: "'a list promise \<Rightarrow> 'a list promise" where
  "catchEmpty p = (case p of Fulfilled x \<Rightarrow> Fulfilled x | Rejected e \<Rightarrow> Fulfilled [])"

text \<open>
  \<^verbatim>\<open>Promise.all\<close>: fulfilled with all the values when every promise is fulfilled, rejected
  when one is rejected (with the reason of the first rejected one in the list; the runtime
  takes the one that rejects first in time).
\<close>

fun promiseAll :: "'a promise list \<Rightarrow> 'a list promise" where
  "promiseAll [] = Fulfilled []"
| "promiseAll (Rejected e # ps) = Rejected e"
| "promiseAll (Fulfilled x # ps) =
     (case promiseAll ps of Fulfilled xs \<Rightarrow> Fulfilled (x # xs) | Rejected e \<Rightarrow> Rejected e)"

text \<open>
  The remote data source, as the outcome of each call of one run.  A search takes the
  query and the page (the source passes \<^verbatim>\<open>String(page)\<close>, or nothing); the outcome of a
  call is the field the caller reads from the response (\<open>videos\<close>, or the optional
  \<open>relatedVideos\<close>).
\<close>

record Api =
  searchVideos :: "string \<Rightarrow> int option \<Rightarrow> Video list promise"
  getVideoDetails :: "string \<Rightarrow> Video list option promise"
  getChannelVideos :: "string \<Rightarrow> Video list promise"
  getRecommendedVideos :: "Video list promise"

text \<open>
  \<^verbatim>\<open>Math.floor(Math.random() * k)\<close> is some index below \<open>k\<close>.  A run is described by the
  numbers drawn; a drawn number \<open>r\<close> stands for the index \<open>r mod k\<close>, so that every choice
  of numbers describes a run.
\<close>

definition floorRandom :: "nat \<Rightarrow> nat \<Rightarrow> nat" where
  "floorRandom r k = r mod k"

text \<open>
  \<open>shuffleArray\<close>: the loop \<^verbatim>\<open>for (i = length - 1; i > 0; i--)\<close> swaps the entries \<open>i\<close> and
  \<open>j\<close>; \<open>draws i\<close> is the number drawn in the iteration with index \<open>i\<close>.
\<close>

fun shuffleLoop :: "(nat \<Rightarrow> nat) \<Rightarrow> nat \<Rightarrow> 'a list \<Rightarrow> 'a list" where
  "shuffleLoop draws 0 newArray = newArray"
| "shuffleLoop draws (Suc i) newArray =
     (let j = floorRandom (draws (Suc i)) (Suc i + 1)
      in shuffleLoop draws i (newArray[Suc i := newArray ! j, j := newArray ! Suc i]))"

definition shuffleArray :: "(nat \<Rightarrow> nat) \<Rightarrow> 'a list \<Rightarrow> 'a list" where
  "shuffleArray draws array = shuffleLoop draws (length array - 1) array"

section \<open>The requests of the strict-filter pipeline\<close>

text \<open>
  \<^verbatim>\<open>{ ...v, channelName: sub.name, channelAvatarUrl: sub.avatarUrl, channelId: sub.id }\<close>
\<close>

definition annotate :: "Channel \<Rightarrow> Video \<Rightarrow> Video" where
  "annotate sub v = v\<lparr>channelName := name sub, channelAvatarUrl := avatarUrl sub, channelId := idC sub\<rparr>"

text \<open>
  \<open>fetchPromises\<close> of \<open>getDeeplyAnalyzedRecommendations\<close> (scoring module), for the planned
  queries and the subscribed channels chosen for a direct feed (none in discovery mode);
  every request has its \<^verbatim>\<open>.catch(() => [])\<close>.
\<close>

definition fetchPromises :: "Api \<Rightarrow> string list \<Rightarrow> Channel list \<Rightarrow> Video list promise list" where
  "fetchPromises api uniqueQueries subsToFetch =
     map (\<lambda>q. catchEmpty (searchVideos api q None)) uniqueQueries
     @ map (\<lambda>sub. catchEmpty (thenP (map (annotate sub)) (getChannelVideos api (idC sub)))) subsToFetch"

text \<open>
  The function from the requests on: \<^verbatim>\<open>Promise.allSettled\<close> gives the outcomes in the
  order of the requests, and \<open>analyzeSettled\<close> does the rest.
\<close>

definition analyzeFetched :: "(string \<Rightarrow> string) \<Rightarrow> Api \<Rightarrow> RecommendationSource \<Rightarrow> string list
    \<Rightarrow> Channel list \<Rightarrow> error + ScoredVideo list" where
  "analyzeFetched toLowerCase api sources uniqueQueries subsToFetch =
     analyzeSettled toLowerCase sources (fetchPromises api uniqueQueries subsToFetch)"

section \<open>The weighted dual-pool pipeline\<close>

text \<open>\<open>RecommendationSource\<close> of the dual-pool module; its fields carry the suffix \<open>_x\<close>.\<close>

record XraiSource =
  searchHistory_x :: "string list"
  watchHistory_x :: "Video list"
  subscribedChannels_x :: "Channel list"
  preferredGenres_x :: "string list"
  preferredChannels_x :: "string list"
  ngKeywords_x :: "string list"
  ngChannels_x :: "string list"
  page_x :: int

text \<open>
  The module \<^verbatim>\<open>./xrai\<close> is not part of the sources at hand; its two functions are
  parameters.  \<open>'p\<close> is the type of a user profile, \<open>keywordEntries\<close> gives the entries of the
  profile's keyword map in the order of the map, and \<open>rankVideos\<close> takes the list, the
  profile, the NG keywords, the NG channels, the watch history and the mode.
\<close>

record 'p Xrai =
  buildUserProfile :: "Video list \<Rightarrow> string list \<Rightarrow> Channel list \<Rightarrow> 'p"
  keywordEntries :: "'p \<Rightarrow> (string \<times> rat) list"
  rankVideos :: "Video list \<Rightarrow> 'p \<Rightarrow> string list \<Rightarrow> string list \<Rightarrow> Video list \<Rightarrow> string \<Rightarrow> Video list"

text \<open>The numbers drawn in one run of \<open>getXraiRecommendations\<close>.\<close>

record Draws =
  recentDraw :: nat
  shuffleDraws :: "nat \<Rightarrow> nat"

text \<open>\<open>chunkArray\<close>; the loop ends for a positive \<open>size\<close>, and the only call has size 3.\<close>

function chunkArray :: "'a list \<Rightarrow> nat \<Rightarrow> 'a list list" where
  "chunkArray array n =
     (if array = [] \<or> n = 0 then [] else take n array # chunkArray (drop n array) n)"
  by pat_completeness auto
termination
  by (relation "measure (\<lambda>(array, n). length array)") auto

text \<open>\<^verbatim>\<open>chunk.join(sep)\<close>\<close>

fun joinWith :: "string \<Rightarrow> string list \<Rightarrow> string" where
  "joinWith sep [] = []"
| "joinWith sep [x] = x"
| "joinWith sep (x # y # ys) = x @ sep @ joinWith sep (y # ys)"

text \<open>\<^verbatim>\<open>Array.from(new Set(xs))\<close>: the first occurrence of each element, in order.\<close>

definition uniqueInOrder :: "'a list \<Rightarrow> 'a list" where
  "uniqueInOrder xs = foldl (\<lambda>acc x. if x \<in> set acc then acc else acc @ [x]) [] xs"

text \<open>
  \<^verbatim>\<open>Array.from(new Map(raw.map(v => [v.id, v])).values())\<close>: a key keeps the position of
  its first entry and the value of its last one, as \<open>AList.update\<close> does.
\<close>

definition uniqueById :: "Video list \<Rightarrow> Video list" where
  "uniqueById raw = map snd (foldl (\<lambda>m v. AList.update (idV v) v m) [] raw)"

text \<open>
  \<open>getXraiRecommendations\<close>, in the order of the source: the profile and the top keywords,
  the requests of the discovery pool, the requests of the comfort pool, the join, and the
  ranking and mixing of what the requests returned.
\<close>

definition userProfile :: "'p Xrai \<Rightarrow> XraiSource \<Rightarrow> 'p" where
  "userProfile xrai sources =
     buildUserProfile xrai (watchHistory_x sources) (searchHistory_x sources)
       (subscribedChannels_x sources)"

definition topKeywords :: "'p Xrai \<Rightarrow> XraiSource \<Rightarrow> string list" where
  "topKeywords xrai sources =
     (let weightedKeywords =
            map fst (sort_key (\<lambda>entry. - snd entry) (keywordEntries xrai (userProfile xrai sources)));
          priorityKeywords = uniqueInOrder (preferredGenres_x sources @ weightedKeywords)
      in take 12 priorityKeywords)"

text \<open>The searches A-1 and A-2; every one of them has its \<^verbatim>\<open>.catch(() => [])\<close>.\<close>

definition searchPromises :: "Api \<Rightarrow> 'p Xrai \<Rightarrow> XraiSource \<Rightarrow> Video list promise list" where
  "searchPromises api xrai sources =
     (if length (topKeywords xrai sources) > 0
      then map (\<lambda>chunk. catchEmpty (searchVideos api (joinWith '' OR '' chunk) (Some (page_x sources))))
             (chunkArray (topKeywords xrai sources) 3)
      else [])
     @
     (if length (topKeywords xrai sources) = 0 \<and> page_x sources = 1
      then [catchEmpty (searchVideos api ''trending Japan'' (Some 1))]
      else [])"

text \<open>The requests B-1 and B-2 of the comfort pool, each with its \<^verbatim>\<open>.catch(() => [])\<close>.\<close>

definition comfortPromises :: "Api \<Rightarrow> Draws \<Rightarrow> XraiSource \<Rightarrow> Video list promise list" where
  "comfortPromises api rnd sources =
     (if length (watchHistory_x sources) > 0
      then (let recentVideo = watchHistory_x sources !
                  floorRandom (recentDraw rnd) (min (length (watchHistory_x sources)) 5)
            in [catchEmpty (thenP (\<lambda>related. case related of None \<Rightarrow> [] | Some r \<Rightarrow> r)
                              (getVideoDetails api (idV recentVideo)))])
      else [])
     @
     (if length (subscribedChannels_x sources) > 0
      then map (\<lambda>sub. catchEmpty (thenP (take 8) (getChannelVideos api (idC sub))))
             (take 2 (shuffleArray (shuffleDraws rnd) (subscribedChannels_x sources)))
      else [])"

text \<open>
  \<open>discoveryPromises\<close> at the join: the searches and, for a user without any data and
  without a search, the recommended feed, which is pushed without a \<^verbatim>\<open>.catch\<close>.
\<close>

definition discoveryPromises :: "Api \<Rightarrow> 'p Xrai \<Rightarrow> XraiSource \<Rightarrow> Video list promise list" where
  "discoveryPromises api xrai sources =
     searchPromises api xrai sources
     @
     (if length (watchHistory_x sources) = 0 \<and> length (subscribedChannels_x sources) = 0
         \<and> length (topKeywords xrai sources) = 0 \<and> length (searchPromises api xrai sources) = 0
      then [getRecommendedVideos api]
      else [])"

text \<open>Behind the join: deduplication, ranking, mixing with the ratio 0.65, \<^verbatim>\<open>slice(0, 150)\<close>.\<close>

definition rankAndMix :: "'p Xrai \<Rightarrow> XraiSource \<Rightarrow> Video list list \<Rightarrow> Video list list \<Rightarrow> Video list" where
  "rankAndMix xrai sources discoveryNested comfortNested =
     (let rawDiscovery = concat discoveryNested;
          rawComfort = concat comfortNested;
          uniqueDiscovery = uniqueById rawDiscovery;
          uniqueComfort = uniqueById rawComfort;
          discoveryIds = set (map idV uniqueDiscovery);
          filteredComfort = filter (\<lambda>v. idV v \<notin> discoveryIds) uniqueComfort;
          rankedDiscovery = rankVideos xrai uniqueDiscovery (userProfile xrai sources)
                              (ngKeywords_x sources) (ngChannels_x sources)
                              (watchHistory_x sources) ''discovery'';
          rankedComfort = rankVideos xrai filteredComfort (userProfile xrai sources)
                            (ngKeywords_x sources) (ngChannels_x sources)
                            (watchHistory_x sources) ''comfort'';
          finalFeed = mixFeeds idV rankedDiscovery rankedComfort (65 / 100)
      in take 150 finalFeed)"

text \<open>
  The join is \<^verbatim>\<open>await Promise.all([Promise.all(discoveryPromises),
  Promise.all(comfortPromises)])\<close>: a rejection there rejects the promise that the function
  returns.
\<close>

definition getXraiRecommendations :: "Api \<Rightarrow> 'p Xrai \<Rightarrow> Draws \<Rightarrow> XraiSource \<Rightarrow> Video list promise" where
  "getXraiRecommendations api xrai rnd sources =
     (case promiseAll [promiseAll (discoveryPromises api xrai sources),
                       promiseAll (comfortPromises api rnd sources)] of
        Rejected e \<Rightarrow> Rejected e
      | Fulfilled nested \<Rightarrow> Fulfilled (rankAndMix xrai sources (nested ! 0) (nested ! 1)))"

text \<open>\<open>getLegacyRecommendations\<close>: the \<^verbatim>\<open>try\<close> block returns the shuffled feed, the
  \<^verbatim>\<open>catch\<close> block the empty list.\<close>

definition getLegacyRecommendations :: "Api \<Rightarrow> (nat \<Rightarrow> nat) \<Rightarrow> Video list promise" where
  "getLegacyRecommendations api draws =
     (case getRecommendedVideos api of
        Fulfilled videos \<Rightarrow> Fulfilled (shuffleArray draws videos)
      | Rejected e \<Rightarrow> Fulfilled [])"

section \<open>The filter pipeline of \<^verbatim>\<open>src/utils/recommendation.ts\<close>\<close>

text \<open>
  The part of \<open>getDeeplyAnalyzedRecommendations\<close> of that file behind the join of the
  requests.  \<open>ngKw\<close> and \<open>prefDur\<close> are the destructured \<open>ngKeywords\<close> and
  \<open>preferredDurations\<close> (an absent field is the empty list).
\<close>

definition isNg :: "(string \<Rightarrow> string) \<Rightarrow> string list \<Rightarrow> 'a Video_scheme \<Rightarrow> bool" where
  "isNg toLowerCase ngKw video =
     (let targetText = toLowerCase (title video @ '' '' @ channelName video @ '' ''
                          @ orEmpty (descriptionSnippet video))
      in list_ex (\<lambda>ng. includes_str targetText (toLowerCase ng)) ngKw)"

definition isMatch :: "string list \<Rightarrow> 'a Video_scheme \<Rightarrow> bool" where
  "isMatch prefDur video =
     (let durationSec = parseDurationToSeconds_utils (isoDuration video)
      in (''short'' \<in> set prefDur \<and> numLt durationSec 240)
         \<or> (''medium'' \<in> set prefDur \<and> numGe durationSec 240 \<and> numLe durationSec 1200)
         \<or> (''long'' \<in> set prefDur \<and> numGt durationSec 1200)
         \<or> durationSec = Exact 0)"

text \<open>A candidate that one of the two filters of the loop drops.\<close>

definition rejected :: "(string \<Rightarrow> string) \<Rightarrow> string list \<Rightarrow> string list \<Rightarrow> 'a Video_scheme \<Rightarrow> bool" where
  "rejected toLowerCase ngKw prefDur video =
     ((length ngKw > 0 \<and> isNg toLowerCase ngKw video)
      \<or> (length prefDur > 0 \<and> \<not> isMatch prefDur video))"

text \<open>One iteration of the loop over \<open>combinedVideos\<close>, on \<open>(seenIds, filteredVideos)\<close>.\<close>

definition filterStep :: "(string \<Rightarrow> string) \<Rightarrow> string list \<Rightarrow> string list
    \<Rightarrow> string set \<times> 'a Video_scheme list
    \<Rightarrow> 'a Video_scheme \<Rightarrow> string set \<times> 'a Video_scheme list" where
  "filterStep toLowerCase ngKw prefDur = (\<lambda>(seenIds, filteredVideos) video.
     if idV video \<in> seenIds then (seenIds, filteredVideos)
     else if length ngKw > 0 \<and> isNg toLowerCase ngKw video
     then (insert (idV video) seenIds, filteredVideos)
     else if length prefDur > 0 \<and> \<not> isMatch prefDur video
     then (insert (idV video) seenIds, filteredVideos)
     else (insert (idV video) seenIds, filteredVideos @ [video]))"

definition filterCandidates :: "(string \<Rightarrow> string) \<Rightarrow> string list \<Rightarrow> string list
    \<Rightarrow> 'a Video_scheme list \<Rightarrow> 'a Video_scheme list" where
  "filterCandidates toLowerCase ngKw prefDur combinedVideos =
     snd (foldl (filterStep toLowerCase ngKw prefDur) ({}, []) combinedVideos)"

text \<open>
  The exclusion of short videos; \<open>keepShort k\<close> is the outcome of \<^verbatim>\<open>Math.random() > 0.7\<close>
  for the entry at position \<open>k\<close>.
\<close>

definition excludeShorts :: "string list \<Rightarrow> (nat \<Rightarrow> bool) \<Rightarrow> 'a Video_scheme list
    \<Rightarrow> 'a Video_scheme list" where
  "excludeShorts prefDur keepShort filteredVideos =
     (if length filteredVideos > 20
      then map snd (filter (\<lambda>(k, v).
               (let seconds = parseDurationToSeconds_utils (isoDuration v)
                in if ''short'' \<in> set prefDur then True
                   else numGt seconds 60 \<or> keepShort k))
             (enumerate 0 filteredVideos))
      else filteredVideos)"

definition TARGET_COUNT :: nat where
  "TARGET_COUNT = 100"

definition analyzeCombined :: "(string \<Rightarrow> string) \<Rightarrow> string list \<Rightarrow> string list \<Rightarrow> (nat \<Rightarrow> bool)
    \<Rightarrow> (nat \<Rightarrow> nat) \<Rightarrow> 'a Video_scheme list \<Rightarrow> 'a Video_scheme list" where
  "analyzeCombined toLowerCase ngKw prefDur keepShort draws combinedVideos =
     take TARGET_COUNT
       (shuffleArray draws
         (excludeShorts prefDur keepShort
           (filterCandidates toLowerCase ngKw prefDur combinedVideos)))"

section \<open>Specification functions\<close>

text \<open>
  The candidates whose id is neither in \<open>S\<close> nor carried by an earlier candidate: the
  first occurrence of every id outside \<open>S\<close>, in the order of the list.
\<close>

fun firstSeen :: "string set \<Rightarrow> 'a Video_scheme list \<Rightarrow> 'a Video_scheme list" where
  "firstSeen S [] = []"
| "firstSeen S (v # vs) =
     (if idV v \<in> S then firstSeen S vs else v # firstSeen (insert (idV v) S) vs)"

text \<open>
  The text that is searched for NG keywords: the lower-cased title, the lower-cased
  description snippet (nothing when the video has none) and the lower-cased channel name,
  with one space between them.
\<close>

definition loweredText :: "(string \<Rightarrow> string) \<Rightarrow> 'a Video_scheme \<Rightarrow> string" where
  "loweredText toLowerCase video =
     toLowerCase (title video) @ [CHR '' '']
     @ (case descriptionSnippet video of None \<Rightarrow> toLowerCase [] | Some d \<Rightarrow> toLowerCase d)
     @ [CHR '' ''] @ toLowerCase (channelName video)"

text \<open>
  A keyword occurs in the text of a video ignoring case: its lower-cased form is a
  substring of that text.
\<close>

definition occursIgnoringCase :: "(string \<Rightarrow> string) \<Rightarrow> string \<Rightarrow> 'a Video_scheme \<Rightarrow> bool" where
  "occursIgnoringCase toLowerCase kw video =
     (\<exists>before after. loweredText toLowerCase video = before @ toLowerCase kw @ after)"

text \<open>The duration buckets in the words of the specification.\<close>

fun inBucket :: "string \<Rightarrow> number \<Rightarrow> bool" where
  "inBucket b (Exact sec) =
     (if b = ''short'' then 0 < sec \<and> sec < 240
      else if b = ''medium'' then 240 \<le> sec \<and> sec \<le> 1200
      else if b = ''long'' then 1200 < sec
      else False)"
| "inBucket b Beyond = (b = ''long'')"

text \<open>The shape \<open>PT[nH][nM][nS]\<close>: each component is absent or a digit run with its unit.\<close>

definition digitRun :: "string \<Rightarrow> bool" where
  "digitRun ds = (ds \<noteq> [] \<and> list_all isDigit ds)"

definition wfComponent :: "string option \<Rightarrow> bool" where
  "wfComponent g = (case g of None \<Rightarrow> True | Some ds \<Rightarrow> digitRun ds)"

definition componentText :: "string option \<Rightarrow> char \<Rightarrow> string" where
  "componentText g u = (case g of None \<Rightarrow> [] | Some ds \<Rightarrow> ds @ [u])"

definition durationForm :: "string option \<Rightarrow> string option \<Rightarrow> string option \<Rightarrow> string" where
  "durationForm h m s =
     ''PT'' @ componentText h CHR ''H'' @ componentText m CHR ''M'' @ componentText s CHR ''S''"

text \<open>The seconds that the components of such a shape stand for, as an integer.\<close>

definition componentValue :: "string option \<Rightarrow> int" where
  "componentValue g = (case g of None \<Rightarrow> 0 | Some ds \<Rightarrow> decimalValue ds)"

definition formSeconds :: "string option \<Rightarrow> string option \<Rightarrow> string option \<Rightarrow> int" where
  "formSeconds h m s = componentValue h * 3600 + componentValue m * 60 + componentValue s"

text \<open>
  A string has the shape \<open>PT[nH][nM][nS]\<close> as a whole: it starts with \<open>PT\<close> and nothing
  is left behind the three optional components.
\<close>

definition isDurationForm :: "string \<Rightarrow> bool" where
  "isDurationForm t =
     (case t of
        a # b # r \<Rightarrow>
          a = CHR ''P'' \<and> b = CHR ''T''
          \<and> snd (component CHR ''S'' (snd (component CHR ''M'' (snd (component CHR ''H'' r))))) = []
      | _ \<Rightarrow> False)"

text \<open>
  A text starts with a component of the unit \<open>u\<close>: a digit run and then \<open>u\<close>.  A shape
  \<open>PT[nH][nM][nS]\<close> inside a longer string ends where the text behind it does not start
  with a component that could still follow: none after seconds, seconds after minutes,
  minutes or seconds after hours, and any of the three after a bare \<open>PT\<close>.
\<close>

definition startsWithComponent :: "char \<Rightarrow> string \<Rightarrow> bool" where
  "startsWithComponent u r = (\<exists>ds r'. digitRun ds \<and> r = ds @ u # r')"

definition endsBefore :: "string option \<Rightarrow> string option \<Rightarrow> string option \<Rightarrow> string \<Rightarrow> bool" where
  "endsBefore h m s rest =
     (case s of
        Some ss \<Rightarrow> True
      | None \<Rightarrow>
          (\<not> startsWithComponent CHR ''S'' rest)
          \<and> (case m of
                Some ms \<Rightarrow> True
              | None \<Rightarrow>
                  (\<not> startsWithComponent CHR ''M'' rest)
                  \<and> (case h of Some hs \<Rightarrow> True | None \<Rightarrow> \<not> startsWithComponent CHR ''H'' rest)))"

text \<open>
  A rule is additive when it adds a fixed amount to the score and appends fixed reasons,
  whatever the tally it is applied to; a rule that may throw is additive when it throws
  or not whatever the tally, and is additive where it does not throw.
\<close>

definition additiveRule :: "(tally \<Rightarrow> tally) \<Rightarrow> bool" where
  "additiveRule R = (\<forall>sc rs. R (sc, rs) = (sc + fst (R (0, [])), rs @ snd (R (0, []))))"

definition shiftTally :: "int \<Rightarrow> string list \<Rightarrow> error + tally \<Rightarrow> error + tally" where
  "shiftTally sc rs r = (case r of Inl e \<Rightarrow> Inl e | Inr t \<Rightarrow> Inr (sc + fst t, rs @ snd t))"

definition additiveThrowing :: "(tally \<Rightarrow> error + tally) \<Rightarrow> bool" where
  "additiveThrowing R = (\<forall>sc rs. R (sc, rs) = shiftTally sc rs (R (0, [])))"

text \<open>All the rules behind the duration rule, in the order of \<open>calculateScore\<close>.\<close>

definition laterRules :: "(string \<Rightarrow> string) \<Rightarrow> 'a Video_scheme \<Rightarrow> RecommendationSource
    \<Rightarrow> tally \<Rightarrow> error + tally" where
  "laterRules toLowerCase video source t =
     (case contextRule toLowerCase video source
             (genreRule toLowerCase video source
               (subscribedRule toLowerCase video source
                 (preferredChannelRule toLowerCase video source t))) of
        Inl e \<Rightarrow> Inl e
      | Inr t' \<Rightarrow> Inr (freshnessRule video source t'))"

text \<open>
  The scored entry of a candidate: the candidate with the score and the reasons that
  \<open>calculateScore\<close> returns for it.
\<close>

definition scoredAs :: "(string \<Rightarrow> string) \<Rightarrow> RecommendationSource \<Rightarrow> Video \<Rightarrow> ScoredVideo" where
  "scoredAs toLowerCase sources video =
     scoreVideo video
       (case calculateScore toLowerCase video sources of Inr t \<Rightarrow> t | Inl e \<Rightarrow> (0, []))"

text \<open>
  Notions for the loop of \<open>mixFeeds\<close>.  \<open>emit\<close> is the end of an iteration: the candidate
  is appended unless its id has been seen.  \<open>mixInv\<close> relates the state to the parts of
  the two lists consumed so far, and \<open>mixOrder\<close> says that the result interleaves them.
\<close>

definition emit :: "('v \<Rightarrow> string) \<Rightarrow> 'v \<Rightarrow> 'v mixState \<Rightarrow> 'v mixState" where
  "emit ident c st =
     (if ident c \<notin> seenIds st
      then st\<lparr>seenIds := insert (ident c) (seenIds st), result := result st @ [c]\<rparr>
      else st)"

definition mixInv :: "('v \<Rightarrow> string) \<Rightarrow> 'v list \<Rightarrow> 'v list \<Rightarrow> 'v mixState \<Rightarrow> bool" where
  "mixInv ident A B st =
     (idxA st \<le> length A \<and> idxB st \<le> length B
      \<and> seenIds st = ident ` set (result st)
      \<and> distinct (map ident (result st))
      \<and> ident ` set (result st) = ident ` (set (take (idxA st) A) \<union> set (take (idxB st) B)))"

definition mixOrder :: "'v list \<Rightarrow> 'v list \<Rightarrow> 'v mixState \<Rightarrow> bool" where
  "mixOrder A B st = (result st \<in> shuffles (take (idxA st) A) (take (idxB st) B))"

section \<open>Example inputs\<close>

definition exampleVideo :: Video where
  "exampleVideo =
     \<lparr>idV = ''v1'', title = ''Easy Cooking Recipe'', channelId = ''c1'', channelName = ''Chef'',
      channelAvatarUrl = [], descriptionSnippet = None, uploadedAt = ''2024-01-01'',
      isoDuration = ''PT5M''\<rparr>"

definition exampleSource :: RecommendationSource where
  "exampleSource =
     \<lparr>searchHistory = [], watchHistory = [], subscribedChannels = [],
      preferredGenres = [''cooking''], preferredChannels = [], preferredDurations = None,
      preferredFreshness = None, discoveryMode = None, ngKeywords = None,
      prefDepth = None, prefVocal = None, prefEra = None, prefRegion = None, prefLive = None,
      prefInfoEnt = None, prefPacing = None, prefVisual = None, prefCommunity = None,
      page = 1\<rparr>"

text \<open>
  A remote source whose recommended feed fails, a profile builder that finds no keywords,
  and a user without any history, subscription or preference who asks for page 2.
\<close>

definition failingApi :: Api where
  "failingApi =
     \<lparr>searchVideos = (\<lambda>query pg. Fulfilled []),
      getVideoDetails = (\<lambda>videoId. Fulfilled None),
      getChannelVideos = (\<lambda>channelId. Fulfilled []),
      getRecommendedVideos = Rejected ''network error''\<rparr>"

definition plainXrai :: "unit Xrai" where
  "plainXrai =
     \<lparr>buildUserProfile = (\<lambda>watched searched subscribed. ()),
      keywordEntries = (\<lambda>profile. []),
      rankVideos = (\<lambda>videos profile ngKw ngCh watched mode. videos)\<rparr>"

definition newUserSource :: XraiSource where
  "newUserSource =
     \<lparr>searchHistory_x = [], watchHistory_x = [], subscribedChannels_x = [],
      preferredGenres_x = [], preferredChannels_x = [], ngKeywords_x = [], ngChannels_x = [],
      page_x = 2\<rparr>"

definition zeroDraws :: Draws where
  "zeroDraws = \<lparr>recentDraw = 0, shuffleDraws = (\<lambda>i. 0)\<rparr>"

section \<open>Properties of the string functions and of the duration parser\<close>

lemma includes_str_iff: "includes_str s t \<longleftrightarrow> (\<exists>p q. s = p @ t @ q)"
proof (induction s)
  case Nil
  then show ?case by auto
next
  case (Cons c cs)
  show ?case
  proof
    assume "includes_str (c # cs) t"
    then consider "prefix t (c # cs)" | "includes_str cs t" by auto
    then show "\<exists>p q. c # cs = p @ t @ q"
    proof cases
      case 1
      then obtain q where "c # cs = t @ q" by (auto simp: prefix_def)
      then have "c # cs = [] @ t @ q" by simp
      then show ?thesis by blast
    next
      case 2
      then obtain p q where "cs = p @ t @ q" using Cons.IH by blast
      then have "c # cs = (c # p) @ t @ q" by simp
      then show ?thesis by blast
    qed
  next
    assume "\<exists>p q. c # cs = p @ t @ q"
    then obtain p q where pq: "c # cs = p @ t @ q" by blast
    show "includes_str (c # cs) t"
    proof (cases p)
      case Nil
      then have "prefix t (c # cs)" using pq by (simp add: prefix_def)
      then show ?thesis by simp
    next
      case (Cons a p')
      then have "cs = p' @ t @ q" using pq by simp
      then have "includes_str cs t" using Cons.IH by blast
      then show ?thesis by simp
    qed
  qed
qed

lemma afterPT_None_iff: "afterPT s = None \<longleftrightarrow> \<not> includes_str s ''PT''"
  by (induction s rule: afterPT.induct) auto

lemma afterPT_leftmost:
  "\<not> includes_str (pre @ ''P'') ''PT'' \<Longrightarrow> afterPT (pre @ CHR ''P'' # CHR ''T'' # r) = Some r"
proof (induction pre)
  case Nil
  show ?case by simp
next
  case (Cons a pre)
  have no: "\<not> prefix ''PT'' (a # pre @ ''P'')" and rest: "\<not> includes_str (pre @ ''P'') ''PT''"
    using Cons.prems by simp_all
  obtain b cs where bc: "pre @ CHR ''P'' # CHR ''T'' # r = b # cs"
    by (cases "pre @ CHR ''P'' # CHR ''T'' # r") simp_all
  have "\<not> (a = CHR ''P'' \<and> b = CHR ''T'')"
  proof
    assume ab: "a = CHR ''P'' \<and> b = CHR ''T''"
    show False
    proof (cases pre)
      case Nil
      then show ?thesis using bc ab by simp
    next
      case (Cons p ps)
      then show ?thesis using bc ab no by simp
    qed
  qed
  then have "afterPT (a # b # cs) = afterPT (b # cs)" by auto
  then show ?case using Cons.IH [OF rest] bc by simp
qed

lemma afterPT_Some:
  "afterPT t = Some r \<Longrightarrow>
   \<exists>pre. t = pre @ CHR ''P'' # CHR ''T'' # r \<and> \<not> includes_str (pre @ ''P'') ''PT''"
proof (induction t rule: afterPT.induct)
  case (1 a b cs)
  show ?case
  proof (cases "a = CHR ''P'' \<and> b = CHR ''T''")
    case True
    then have "a # b # cs = [] @ CHR ''P'' # CHR ''T'' # r" using 1 by simp
    moreover have "\<not> includes_str ([] @ ''P'') ''PT''" by simp
    ultimately show ?thesis by blast
  next
    case False
    then have "afterPT (b # cs) = Some r" using "1.prems" by auto
    then obtain pre where pre: "b # cs = pre @ CHR ''P'' # CHR ''T'' # r"
        "\<not> includes_str (pre @ ''P'') ''PT''"
      using "1.IH" False by blast
    have "\<not> prefix ''PT'' (a # pre @ ''P'')"
    proof (cases pre)
      case Nil
      then show ?thesis by simp
    next
      case (Cons p ps)
      then show ?thesis using pre(1) False by auto
    qed
    then have "\<not> includes_str ((a # pre) @ ''P'') ''PT''" using pre(2) by simp
    moreover have "a # b # cs = (a # pre) @ CHR ''P'' # CHR ''T'' # r" using pre(1) by simp
    ultimately show ?thesis by blast
  qed
qed simp_all

lemma digitValue_range: "isDigit c \<Longrightarrow> 0 \<le> digitValue c \<and> digitValue c \<le> 9"
  by (auto simp: isDigit_def digitValue_def)

lemma foldl_digits_nonneg:
  "list_all isDigit ds \<Longrightarrow> 0 \<le> a \<Longrightarrow> 0 \<le> foldl (\<lambda>a d. 10 * a + digitValue d) a ds"
proof (induction ds arbitrary: a)
  case Nil
  then show ?case by simp
next
  case (Cons d ds)
  then have "0 \<le> 10 * a + digitValue d" using digitValue_range [of d] by simp
  then show ?case using Cons by simp
qed

lemma decimalValue_nonneg: "list_all isDigit ds \<Longrightarrow> 0 \<le> decimalValue ds"
  by (simp add: decimalValue_def foldl_digits_nonneg)

lemma componentValue_nonneg: "wfComponent g \<Longrightarrow> 0 \<le> componentValue g"
  by (cases g) (simp_all add: componentValue_def wfComponent_def digitRun_def decimalValue_nonneg)

lemma groupValue_componentValue: "groupValue g = exactOrBeyond (componentValue g)"
  by (cases g) (simp_all add: groupValue_def componentValue_def parseInt_def decimalValue_def
      digitValue_def)

lemma maxExact_nonneg: "0 \<le> maxExact"
  by (simp add: maxExact_def)

lemma totalSeconds_exactOrBeyond:
  assumes "0 \<le> a" "0 \<le> b" "0 \<le> c"
  shows "totalSeconds (exactOrBeyond a) (exactOrBeyond b) (exactOrBeyond c)
           = exactOrBeyond (a * 3600 + b * 60 + c)"
proof (cases "a * 3600 + b * 60 + c \<le> maxExact")
  case True
  then have "a \<le> maxExact" "b \<le> maxExact" "c \<le> maxExact" "a * 3600 \<le> maxExact"
      "b * 60 \<le> maxExact" "a * 3600 + b * 60 \<le> maxExact"
    using assms by linarith+
  then show ?thesis using True
    by (simp add: totalSeconds_def exactOrBeyond_def timesNum_def plusNum_def)
next
  case False
  then show ?thesis
    by (simp add: totalSeconds_def exactOrBeyond_def timesNum_def plusNum_def)
qed

lemma component_digits: "component u r = (Some ds, r') \<Longrightarrow> list_all isDigit ds"
  by (auto simp: component_def Let_def list_all_iff split: if_splits dest: set_takeWhileD)

lemma component_present:
  assumes "digitRun ds" "\<not> isDigit u"
  shows "component u (ds @ u # r) = (Some ds, r)"
proof -
  have all: "\<And>x. x \<in> set ds \<Longrightarrow> isDigit x" using assms(1) by (simp add: digitRun_def list_all_iff)
  have "takeWhile isDigit (ds @ u # r) = ds" using all assms(2) by (simp add: takeWhile_append2)
  moreover have "dropWhile isDigit (ds @ u # r) = u # r" using all assms(2) by (simp add: dropWhile_append2)
  moreover have "ds \<noteq> []" using assms(1) by (simp add: digitRun_def)
  ultimately show ?thesis by (simp add: component_def)
qed

lemma component_other_unit:
  assumes "digitRun ds" "\<not> isDigit d" "d \<noteq> u"
  shows "component u (ds @ d # r) = (None, ds @ d # r)"
proof -
  have all: "\<And>x. x \<in> set ds \<Longrightarrow> isDigit x" using assms(1) by (simp add: digitRun_def list_all_iff)
  have "takeWhile isDigit (ds @ d # r) = ds" using all assms(2) by (simp add: takeWhile_append2)
  moreover have "dropWhile isDigit (ds @ d # r) = d # r" using all assms(2) by (simp add: dropWhile_append2)
  ultimately show ?thesis using assms(3) by (simp add: component_def)
qed

lemma component_Nil: "component u [] = (None, [])"
  by (simp add: component_def)

lemma units_not_digits: "\<not> isDigit CHR ''H''" "\<not> isDigit CHR ''M''" "\<not> isDigit CHR ''S''"
  by (simp_all add: isDigit_def)

lemma component_Some:
  assumes "component u r = (Some ds, r')"
  shows "r = ds @ u # r' \<and> digitRun ds"
proof -
  let ?ds = "takeWhile isDigit r" and ?rest = "dropWhile isDigit r"
  from assms have c: "?ds \<noteq> []" "?rest \<noteq> []" "hd ?rest = u" "ds = ?ds" "r' = tl ?rest"
    by (auto simp: component_def Let_def split: if_splits)
  have "r = ?ds @ ?rest" by simp
  also have "?rest = u # r'" using c by (cases ?rest) auto
  finally have "r = ds @ u # r'" using c by simp
  moreover have "digitRun ds" using c assms component_digits by (auto simp: digitRun_def)
  ultimately show ?thesis by simp
qed

lemma component_None: "component u r = (None, r') \<Longrightarrow> r' = r"
  by (auto simp: component_def Let_def split: if_splits)

lemma component_text:
  assumes "component u r = (g, r')"
  shows "r = componentText g u @ r' \<and> wfComponent g"
proof (cases g)
  case None
  then show ?thesis using assms component_None by (auto simp: componentText_def wfComponent_def)
next
  case (Some ds)
  then show ?thesis using assms component_Some [of u r ds r'] by (simp add: componentText_def wfComponent_def)
qed

lemma component_absent: "\<not> startsWithComponent u r \<Longrightarrow> component u r = (None, r)"
proof (cases "component u r")
  case (Pair g r')
  assume no: "\<not> startsWithComponent u r"
  show ?thesis
  proof (cases g)
    case None
    then show ?thesis using Pair component_None by auto
  next
    case (Some ds)
    then have "r = ds @ u # r' \<and> digitRun ds" using Pair component_Some by blast
    then have "startsWithComponent u r" unfolding startsWithComponent_def by blast
    then show ?thesis using no by simp
  qed
qed

lemma component_None_absent:
  assumes "\<not> isDigit u" "component u r = (None, r')"
  shows "\<not> startsWithComponent u r"
proof
  assume "startsWithComponent u r"
  then obtain ds r'' where "digitRun ds" "r = ds @ u # r''"
    unfolding startsWithComponent_def by blast
  then have "component u r = (Some ds, r'')" using component_present assms(1) by simp
  then show False using assms(2) by simp
qed

lemma startsWithComponent_iff:
  assumes "\<not> isDigit u"
  shows "startsWithComponent u r \<longleftrightarrow> fst (component u r) \<noteq> None"
proof
  assume "startsWithComponent u r"
  then show "fst (component u r) \<noteq> None"
    using component_None_absent [OF assms, of r] by (cases "component u r") auto
next
  assume "fst (component u r) \<noteq> None"
  then show "startsWithComponent u r"
    using component_absent [of u r] by (cases "startsWithComponent u r") auto
qed

lemma regexMatch_shape:
  assumes "wfComponent h" "wfComponent m" "wfComponent s"
    and "\<not> includes_str (pre @ ''P'') ''PT''" and "endsBefore h m s rest"
  shows "regexMatch (pre @ durationForm h m s @ rest) = Some (h, m, s)"
proof -
  have a: "afterPT (pre @ durationForm h m s @ rest) =
      Some (componentText h CHR ''H'' @ componentText m CHR ''M'' @ componentText s CHR ''S'' @ rest)"
    using afterPT_leftmost [OF assms(4)] by (simp add: durationForm_def)
  show ?thesis
    using assms(1,2,3,5) unfolding regexMatch_def a
    by (cases h; cases m; cases s)
       (simp_all add: componentText_def wfComponent_def endsBefore_def component_present
          component_other_unit component_absent units_not_digits)
qed

lemma parseDurationToSeconds_shape:
  assumes "wfComponent h" "wfComponent m" "wfComponent s"
    and "\<not> includes_str (pre @ ''P'') ''PT''" and "endsBefore h m s rest"
  shows "parseDurationToSeconds (pre @ durationForm h m s @ rest) = exactOrBeyond (formSeconds h m s)"
proof -
  have "parseDurationToSeconds (pre @ durationForm h m s @ rest)
          = totalSeconds (groupValue h) (groupValue m) (groupValue s)"
    unfolding parseDurationToSeconds_def regexMatch_shape [OF assms]
    by (simp add: durationForm_def)
  then show ?thesis
    using assms(1,2,3)
    by (simp add: groupValue_componentValue formSeconds_def totalSeconds_exactOrBeyond
        componentValue_nonneg)
qed

lemma endsBefore_Nil: "endsBefore h m s []"
  by (simp add: endsBefore_def startsWithComponent_def split: option.splits)

lemma parseDurationToSeconds_form:
  assumes "wfComponent h" "wfComponent m" "wfComponent s"
  shows "parseDurationToSeconds (durationForm h m s) = exactOrBeyond (formSeconds h m s)"
  using parseDurationToSeconds_shape [OF assms, of "[]" "[]"] endsBefore_Nil by simp

lemma parseDurationToSeconds_no_PT: "\<not> includes_str t ''PT'' \<Longrightarrow> parseDurationToSeconds t = Exact 0"
  by (simp add: parseDurationToSeconds_def regexMatch_def afterPT_None_iff [symmetric])

lemma parseDurationToSeconds_utils_eq: "parseDurationToSeconds_utils t = parseDurationToSeconds t"
  by (cases t) (simp_all add: parseDurationToSeconds_utils_def parseDurationToSeconds_def regexMatch_def)

lemma shape_exists:
  assumes "includes_str t ''PT''"
  shows "\<exists>pre h m s rest. t = pre @ durationForm h m s @ rest
           \<and> wfComponent h \<and> wfComponent m \<and> wfComponent s
           \<and> \<not> includes_str (pre @ ''P'') ''PT'' \<and> endsBefore h m s rest"
proof -
  obtain r where "afterPT t = Some r" using assms afterPT_None_iff [of t] by (cases "afterPT t") auto
  then obtain pre where t: "t = pre @ CHR ''P'' # CHR ''T'' # r"
      and left: "\<not> includes_str (pre @ ''P'') ''PT''"
    using afterPT_Some by blast
  obtain h r1 where h: "component CHR ''H'' r = (h, r1)" by (cases "component CHR ''H'' r")
  obtain m r2 where m: "component CHR ''M'' r1 = (m, r2)" by (cases "component CHR ''M'' r1")
  obtain s r3 where s: "component CHR ''S'' r2 = (s, r3)" by (cases "component CHR ''S'' r2")
  note th = component_text [OF h] and tm = component_text [OF m] and ts = component_text [OF s]
  have eq: "t = pre @ durationForm h m s @ r3"
    using t th tm ts by (simp add: durationForm_def)
  have "\<not> startsWithComponent CHR ''S'' r3" if "s = None"
    using that s component_None_absent [OF units_not_digits(3), of r2 r2] component_None [of "CHR ''S''" r2 r3]
    by auto
  moreover have "\<not> startsWithComponent CHR ''M'' r3" if "s = None" "m = None"
    using that m s component_None_absent [OF units_not_digits(2), of r1 r1]
      component_None [of "CHR ''M''" r1 r2] component_None [of "CHR ''S''" r2 r3]
    by auto
  moreover have "\<not> startsWithComponent CHR ''H'' r3" if "s = None" "m = None" "h = None"
    using that h m s component_None_absent [OF units_not_digits(1), of r r]
      component_None [of "CHR ''H''" r r1] component_None [of "CHR ''M''" r1 r2]
      component_None [of "CHR ''S''" r2 r3]
    by auto
  ultimately have "endsBefore h m s r3"
    by (simp add: endsBefore_def split: option.splits)
  then show ?thesis using eq th tm ts left by blast
qed

lemma parseDurationToSeconds_nonneg: "parseDurationToSeconds t = Exact n \<Longrightarrow> 0 \<le> n"
proof (cases "includes_str t ''PT''")
  case False
  assume "parseDurationToSeconds t = Exact n"
  then show ?thesis using parseDurationToSeconds_no_PT [OF False] by simp
next
  case True
  assume n: "parseDurationToSeconds t = Exact n"
  obtain pre h m s rest where d: "t = pre @ durationForm h m s @ rest"
      "wfComponent h" "wfComponent m" "wfComponent s"
      "\<not> includes_str (pre @ ''P'') ''PT''" "endsBefore h m s rest"
    using shape_exists [OF True] by blast
  have "0 \<le> formSeconds h m s"
    using componentValue_nonneg d(2,3,4) by (simp add: formSeconds_def)
  moreover have "exactOrBeyond (formSeconds h m s) = Exact n"
    using parseDurationToSeconds_shape [OF d(2,3,4,5,6)] n d(1) by simp
  ultimately show ?thesis by (simp add: exactOrBeyond_def split: if_splits)
qed

lemma isDurationForm_iff:
  "isDurationForm t \<longleftrightarrow>
     (\<exists>h m s. wfComponent h \<and> wfComponent m \<and> wfComponent s \<and> t = durationForm h m s)"
proof
  assume "isDurationForm t"
  then obtain r where t: "t = CHR ''P'' # CHR ''T'' # r"
    and e: "snd (component CHR ''S'' (snd (component CHR ''M'' (snd (component CHR ''H'' r))))) = []"
    by (auto simp: isDurationForm_def split: list.splits)
  obtain h r1 where h: "component CHR ''H'' r = (h, r1)" by (cases "component CHR ''H'' r")
  obtain m r2 where m: "component CHR ''M'' r1 = (m, r2)" by (cases "component CHR ''M'' r1")
  obtain s r3 where s: "component CHR ''S'' r2 = (s, r3)" by (cases "component CHR ''S'' r2")
  have "r3 = []" using e h m s by simp
  then have "t = durationForm h m s"
    using t component_text [OF h] component_text [OF m] component_text [OF s]
    by (simp add: durationForm_def)
  then show "\<exists>h m s. wfComponent h \<and> wfComponent m \<and> wfComponent s \<and> t = durationForm h m s"
    using component_text [OF h] component_text [OF m] component_text [OF s] by blast
next
  assume "\<exists>h m s. wfComponent h \<and> wfComponent m \<and> wfComponent s \<and> t = durationForm h m s"
  then obtain h m s where wf: "wfComponent h" "wfComponent m" "wfComponent s"
    and t: "t = durationForm h m s" by blast
  show "isDurationForm t"
    using wf unfolding t isDurationForm_def durationForm_def
    by (cases h; cases m; cases s)
       (simp_all add: componentText_def wfComponent_def component_present component_other_unit
          component_Nil units_not_digits)
qed

text \<open>
  Claim C7, as amended.  \<open>parseDurationToSeconds\<close> reads the shape \<open>PT[nH][nM][nS]\<close> (each
  component absent or a run of decimal digits with its unit) that stands at the leftmost
  \<open>PT\<close> of the string and reaches as far as components follow, and returns its value
  \<open>h * 3600 + m * 60 + s\<close>, an absent component counting 0, when that value is at most
  \<open>2^53\<close>; above \<open>2^53\<close> the result is a double that is not the value in general.  So
  for a string that has the shape as a whole the result is that value up to \<open>2^53\<close>.
  For the empty string and for every string without \<open>PT\<close> the result is 0.  Every other
  string contains such a shape, and the result is 0 exactly when the value of that shape
  is 0.  A result up to \<open>2^53\<close> is a non-negative integer, and the two copies of the
  function agree.
\<close>

theorem parseDurationToSeconds_spec:
  "(wfComponent h \<and> wfComponent m \<and> wfComponent s
      \<and> \<not> includes_str (pre @ ''P'') ''PT'' \<and> endsBefore h m s rest \<longrightarrow>
      parseDurationToSeconds (pre @ durationForm h m s @ rest)
        = (if formSeconds h m s \<le> 2 ^ 53 then Exact (formSeconds h m s) else Beyond))
   \<and> (wfComponent h \<and> wfComponent m \<and> wfComponent s \<longrightarrow>
      parseDurationToSeconds (durationForm h m s)
        = (if formSeconds h m s \<le> 2 ^ 53 then Exact (formSeconds h m s) else Beyond))
   \<and> parseDurationToSeconds [] = Exact 0
   \<and> (\<not> includes_str t ''PT'' \<longrightarrow> parseDurationToSeconds t = Exact 0)
   \<and> (includes_str t ''PT'' \<longrightarrow>
        (\<exists>pre h m s rest. t = pre @ durationForm h m s @ rest
           \<and> wfComponent h \<and> wfComponent m \<and> wfComponent s
           \<and> \<not> includes_str (pre @ ''P'') ''PT'' \<and> endsBefore h m s rest))
   \<and> (\<forall>n. parseDurationToSeconds t = Exact n \<longrightarrow> 0 \<le> n)
   \<and> parseDurationToSeconds_utils t = parseDurationToSeconds t"
proof -
  have e: "exactOrBeyond k = (if k \<le> 2 ^ 53 then Exact k else Beyond)" for k
    by (simp add: exactOrBeyond_def maxExact_def)
  show ?thesis
    using parseDurationToSeconds_shape [of h m s pre rest] parseDurationToSeconds_form [of h m s]
      parseDurationToSeconds_no_PT [of t] shape_exists [of t]
      parseDurationToSeconds_nonneg [of t] parseDurationToSeconds_utils_eq [of t]
    unfolding e by (simp add: parseDurationToSeconds_def)
qed

text \<open>
  Claim C7, instances.  \<open>PT1H30M\<close> has the shape and gives 5400.  \<open>P1DT2H\<close> has no
  \<open>PT\<close> and gives 0.  In \<open>PTH5M\<close> no component follows \<open>PT\<close>, so the shape read is the
  bare \<open>PT\<close> and the result is 0.  In \<open>xPT5M30\<close> the shape read is \<open>PT5M\<close>, and the
  result is 300.
\<close>

theorem parseDurationToSeconds_spec_witness:
  "wfComponent (Some ''1'') \<and> wfComponent (Some ''30'') \<and> wfComponent (Some ''5'') \<and> wfComponent None
   \<and> durationForm (Some ''1'') (Some ''30'') None = ''PT1H30M''
   \<and> formSeconds (Some ''1'') (Some ''30'') None = 5400
   \<and> parseDurationToSeconds ''PT1H30M'' = Exact 5400
   \<and> \<not> includes_str ''P1DT2H'' ''PT''
   \<and> parseDurationToSeconds ''P1DT2H'' = Exact 0
   \<and> endsBefore None None None ''H5M''
   \<and> parseDurationToSeconds ''PTH5M'' = Exact 0
   \<and> \<not> includes_str (''x'' @ ''P'') ''PT'' \<and> endsBefore None (Some ''5'') None ''30''
   \<and> parseDurationToSeconds ''xPT5M30'' = Exact 300"
proof -
  have wf: "wfComponent (Some ''1'')" "wfComponent (Some ''30'')" "wfComponent (Some ''5'')"
      "wfComponent None"
    by (simp_all add: wfComponent_def digitRun_def isDigit_def)
  have f1: "durationForm (Some ''1'') (Some ''30'') None = ''PT1H30M''"
    by (simp add: durationForm_def componentText_def)
  have v1: "formSeconds (Some ''1'') (Some ''30'') None = 5400"
    by (simp add: formSeconds_def componentValue_def decimalValue_def digitValue_def)
  have v2: "formSeconds None None None = 0" "formSeconds None (Some ''5'') None = 300"
    by (simp_all add: formSeconds_def componentValue_def decimalValue_def digitValue_def)
  have n1: "\<not> includes_str ''P1DT2H'' ''PT''" by simp
  have n2: "\<not> includes_str ([] @ ''P'') ''PT''" "\<not> includes_str (''x'' @ ''P'') ''PT''" by simp_all
  have e1: "endsBefore None None None ''H5M''"
    by (simp add: endsBefore_def startsWithComponent_iff units_not_digits component_def isDigit_def)
  have e2: "endsBefore None (Some ''5'') None ''30''"
    by (simp add: endsBefore_def startsWithComponent_iff units_not_digits component_def isDigit_def)
  have f2: "[] @ durationForm None None None @ ''H5M'' = ''PTH5M''"
      "''x'' @ durationForm None (Some ''5'') None @ ''30'' = ''xPT5M30''"
    by (simp_all add: durationForm_def componentText_def)
  have r1: "parseDurationToSeconds ''PT1H30M'' = Exact 5400"
    using parseDurationToSeconds_spec [of "Some ''1''" "Some ''30''" None "[]" "[]" "[]"] wf f1 v1
    by simp
  have r2: "parseDurationToSeconds ''P1DT2H'' = Exact 0"
    using parseDurationToSeconds_spec [of None None None "[]" "[]" "''P1DT2H''"] n1 by blast
  have r3: "parseDurationToSeconds ''PTH5M'' = Exact 0"
    using parseDurationToSeconds_spec [of None None None "[]" "''H5M''" "[]"] wf n2 e1 v2
    unfolding f2 by simp
  have r4: "parseDurationToSeconds ''xPT5M30'' = Exact 300"
    using parseDurationToSeconds_spec [of None "Some ''5''" None "''x''" "''30''" "[]"] wf n2 e2 v2
    unfolding f2 by simp
  show ?thesis using wf f1 v1 n1 n2 e1 e2 r1 r2 r3 r4 by blast
qed

text \<open>
  Claim C7 as stated fails twice.  \<open>PT5M30\<close> does not have the shape \<open>PT[nH][nM][nS]\<close>,
  and the function returns 300 for it, not 0.  \<open>PT9007199254740993S\<close> has the shape, and
  the function does not return 9007199254740993, which is above \<open>2^53\<close> and is not a
  double.
\<close>

theorem parseDurationToSeconds_counterexample:
  "\<not> isDurationForm ''PT5M30'' \<and> parseDurationToSeconds ''PT5M30'' = Exact 300
   \<and> isDurationForm ''PT9007199254740993S''
   \<and> parseDurationToSeconds ''PT9007199254740993S'' = Beyond"
  by code_simp

section \<open>Properties of the scoring engine\<close>

lemma fullText_loweredText: "fullText toLowerCase video = loweredText toLowerCase video"
  by (simp add: fullText_def loweredText_def lowerChannel_def orEmpty_def split: option.splits)

lemma occursIgnoringCase_includes:
  "occursIgnoringCase toLowerCase kw video
     \<longleftrightarrow> includes_str (fullText toLowerCase video) (toLowerCase kw)"
  by (simp add: occursIgnoringCase_def includes_str_iff fullText_loweredText)

lemma ngHit_find:
  "ngHit toLowerCase video source =
     (case ngKeywords source of
        None \<Rightarrow> None
      | Some kws \<Rightarrow> find (\<lambda>k. occursIgnoringCase toLowerCase k video) kws)"
  by (simp add: ngHit_def occursIgnoringCase_includes split: option.splits)




lemma additiveI: "(\<And>sc rs. R (sc, rs) = (sc + fst (R (0, [])), rs @ snd (R (0, [])))) \<Longrightarrow> additiveRule R"
  unfolding additiveRule_def by blast

lemma additiveD: "additiveRule R \<Longrightarrow> R (sc, rs) = (sc + fst (R (0, [])), rs @ snd (R (0, [])))"
  unfolding additiveRule_def by blast

lemma additive_comp:
  assumes "additiveRule R1" "additiveRule R2"
  shows "additiveRule (\<lambda>t. R2 (R1 t))"
proof (rule additiveI)
  fix sc rs
  obtain a1 b1 where r1: "R1 (0, []) = (a1, b1)" by (cases "R1 (0, [])")
  obtain a2 b2 where r2: "R2 (0, []) = (a2, b2)" by (cases "R2 (0, [])")
  have "R2 (R1 (sc, rs)) = (sc + a1 + a2, rs @ b1 @ b2)"
    using additiveD [OF assms(1), of sc rs] additiveD [OF assms(2), of "sc + a1" "rs @ b1"] r1 r2
    by simp
  moreover have "R2 (R1 (0, [])) = (a1 + a2, b1 @ b2)"
    using additiveD [OF assms(2), of a1 b1] r1 r2 by simp
  ultimately show "R2 (R1 (sc, rs)) = (sc + fst (R2 (R1 (0, []))), rs @ snd (R2 (R1 (0, []))))"
    by simp
qed

lemma additive_preferredChannelRule: "additiveRule (preferredChannelRule toLowerCase video source)"
  by (rule additiveI) (simp add: preferredChannelRule_def)

lemma additive_subscribedRule: "additiveRule (subscribedRule toLowerCase video source)"
  by (rule additiveI) (simp add: subscribedRule_def)

lemma additive_freshnessRule: "additiveRule (freshnessRule video source)"
  by (rule additiveI) (simp add: freshnessRule_def)

lemma additive_genreStep: "additiveRule (\<lambda>t. genreStep toLowerCase video t genre)"
  by (rule additiveI) (simp add: genreStep_def)

lemma additive_id: "additiveRule (\<lambda>t. t)"
  by (rule additiveI) simp

lemma additive_genreFold: "additiveRule (\<lambda>t. foldl (genreStep toLowerCase video) t genres)"
proof (induction genres rule: rev_induct)
  case Nil
  show ?case by (simp add: additive_id)
next
  case (snoc g gs)
  have "additiveRule (\<lambda>t. genreStep toLowerCase video (foldl (genreStep toLowerCase video) t gs) g)"
    using additive_comp [OF snoc additive_genreStep [of toLowerCase video g]] .
  then show ?case by simp
qed

lemma additive_genreRule: "additiveRule (genreRule toLowerCase video source)"
  using additive_genreFold [of toLowerCase video "preferredGenres source"]
  by (simp add: genreRule_def [abs_def])

lemma additive_earlierRules:
  "additiveRule (\<lambda>t. genreRule toLowerCase video source
                       (subscribedRule toLowerCase video source
                         (preferredChannelRule toLowerCase video source t)))"
  by (rule additive_comp [OF additive_comp [OF additive_preferredChannelRule additive_subscribedRule]
        additive_genreRule])

lemma throwingI: "(\<And>sc rs. R (sc, rs) = shiftTally sc rs (R (0, []))) \<Longrightarrow> additiveThrowing R"
  unfolding additiveThrowing_def by blast

lemma throwingD: "additiveThrowing R \<Longrightarrow> R (sc, rs) = shiftTally sc rs (R (0, []))"
  unfolding additiveThrowing_def by blast

lemma shiftTally_Inl: "shiftTally sc rs (Inl e) = Inl e"
  by (simp add: shiftTally_def)

lemma shiftTally_Inr: "shiftTally sc rs (Inr (a, b)) = Inr (sc + a, rs @ b)"
  by (simp add: shiftTally_def)

lemma throwing_checkContext: "additiveThrowing (checkContext toLowerCase video prefVal)"
  by (rule throwingI) (simp add: checkContext_def shiftTally_def split: option.splits)

lemma throwing_andThen:
  assumes "additiveThrowing R1" "additiveThrowing R2"
  shows "additiveThrowing (\<lambda>t. andThen (R1 t) R2)"
proof (rule throwingI)
  fix sc rs
  show "andThen (R1 (sc, rs)) R2 = shiftTally sc rs (andThen (R1 (0, [])) R2)"
  proof (cases "R1 (0, [])")
    case (Inl e)
    then show ?thesis
      using throwingD [OF assms(1), of sc rs] by (simp add: andThen_def shiftTally_Inl)
  next
    case (Inr t1)
    obtain a1 b1 where t1: "t1 = (a1, b1)" by (cases t1)
    have l: "andThen (R1 (sc, rs)) R2 = shiftTally (sc + a1) (rs @ b1) (R2 (0, []))"
      using throwingD [OF assms(1), of sc rs] throwingD [OF assms(2), of "sc + a1" "rs @ b1"] Inr t1
      by (simp add: andThen_def shiftTally_Inr)
    have r: "andThen (R1 (0, [])) R2 = shiftTally a1 b1 (R2 (0, []))"
      using throwingD [OF assms(2), of a1 b1] Inr t1 by (simp add: andThen_def)
    show ?thesis unfolding l r by (cases "R2 (0, [])") (simp_all add: shiftTally_def)
  qed
qed

lemma throwing_contextRule: "additiveThrowing (contextRule toLowerCase video source)"
proof -
  note c = throwing_checkContext [of toLowerCase video]
  have "additiveThrowing (\<lambda>t.
     andThen (andThen (andThen (andThen (andThen
       (checkContext toLowerCase video (prefDepth source) t)
       (checkContext toLowerCase video (prefVocal source)))
       (checkContext toLowerCase video (prefLive source)))
       (checkContext toLowerCase video (prefCommunity source)))
       (checkContext toLowerCase video (prefInfoEnt source)))
       (checkContext toLowerCase video (prefVisual source)))"
    by (rule throwing_andThen [OF throwing_andThen [OF throwing_andThen [OF throwing_andThen
          [OF throwing_andThen [OF c c] c] c] c] c])
  then show ?thesis by (simp add: contextRule_def [abs_def])
qed

lemma throwing_after:
  assumes "additiveRule R1" "additiveThrowing R2"
  shows "additiveThrowing (\<lambda>t. R2 (R1 t))"
proof (rule throwingI)
  fix sc rs
  obtain a1 b1 where r1: "R1 (0, []) = (a1, b1)" by (cases "R1 (0, [])")
  have l: "R2 (R1 (sc, rs)) = shiftTally (sc + a1) (rs @ b1) (R2 (0, []))"
    using additiveD [OF assms(1), of sc rs] throwingD [OF assms(2), of "sc + a1" "rs @ b1"] r1
    by simp
  have r: "R2 (R1 (0, [])) = shiftTally a1 b1 (R2 (0, []))"
    using throwingD [OF assms(2), of a1 b1] r1 by simp
  show "R2 (R1 (sc, rs)) = shiftTally sc rs (R2 (R1 (0, [])))"
    unfolding l r by (cases "R2 (0, [])") (simp_all add: shiftTally_def)
qed

lemma throwing_before:
  assumes "additiveThrowing R1" "additiveRule R2"
  shows "additiveThrowing (\<lambda>t. case R1 t of Inl e \<Rightarrow> Inl e | Inr t' \<Rightarrow> Inr (R2 t'))"
proof (rule throwingI)
  fix sc rs
  show "(case R1 (sc, rs) of Inl e \<Rightarrow> Inl e | Inr t' \<Rightarrow> Inr (R2 t'))
      = shiftTally sc rs (case R1 (0, []) of Inl e \<Rightarrow> Inl e | Inr t' \<Rightarrow> Inr (R2 t'))"
  proof (cases "R1 (0, [])")
    case (Inl e)
    then show ?thesis using throwingD [OF assms(1), of sc rs] by (simp add: shiftTally_Inl)
  next
    case (Inr t1)
    obtain a1 b1 where t1: "t1 = (a1, b1)" by (cases t1)
    obtain a2 b2 where r2: "R2 (0, []) = (a2, b2)" by (cases "R2 (0, [])")
    have "R1 (sc, rs) = Inr (sc + a1, rs @ b1)"
      using throwingD [OF assms(1), of sc rs] Inr t1 by (simp add: shiftTally_Inr)
    then show ?thesis
      using Inr t1 r2 additiveD [OF assms(2), of "sc + a1" "rs @ b1"] additiveD [OF assms(2), of a1 b1]
      by (simp add: shiftTally_Inr)
  qed
qed

lemma throwing_laterRules: "additiveThrowing (laterRules toLowerCase video source)"
proof -
  have "additiveThrowing (\<lambda>t.
      case contextRule toLowerCase video source
             (genreRule toLowerCase video source
               (subscribedRule toLowerCase video source
                 (preferredChannelRule toLowerCase video source t))) of
        Inl e \<Rightarrow> Inl e
      | Inr t' \<Rightarrow> Inr (freshnessRule video source t'))"
    by (rule throwing_before [OF throwing_after [OF additive_earlierRules throwing_contextRule]
          additive_freshnessRule])
  then show ?thesis by (simp add: laterRules_def [abs_def])
qed

lemma calculateScore_laterRules:
  "ngHit toLowerCase video source = None \<Longrightarrow>
   calculateScore toLowerCase video source
     = laterRules toLowerCase video source (durationRule video source (0, []))"
  by (simp add: calculateScore_def laterRules_def)

lemma laterRules_durations:
  "laterRules toLowerCase video (source\<lparr>preferredDurations := d\<rparr>) = laterRules toLowerCase video source"
proof -
  let ?src = "source\<lparr>preferredDurations := d\<rparr>"
  have f: "freshnessRule video ?src = freshnessRule video source"
    by (rule ext) (simp add: freshnessRule_def)
  have c: "contextRule toLowerCase video ?src = contextRule toLowerCase video source"
    by (rule ext) (simp add: contextRule_def)
  have g: "genreRule toLowerCase video ?src = genreRule toLowerCase video source"
    by (rule ext) (simp add: genreRule_def)
  have s: "subscribedRule toLowerCase video ?src = subscribedRule toLowerCase video source"
    by (rule ext) (simp add: subscribedRule_def)
  have p: "preferredChannelRule toLowerCase video ?src = preferredChannelRule toLowerCase video source"
    by (rule ext) (simp add: preferredChannelRule_def)
  show ?thesis by (rule ext) (simp only: laterRules_def f c g s p)
qed

lemma ngHit_durations:
  "ngHit toLowerCase video (source\<lparr>preferredDurations := d\<rparr>) = ngHit toLowerCase video source"
  by (simp add: ngHit_def)

lemma calculateScore_no_durations:
  "ngHit toLowerCase video source = None \<Longrightarrow>
   calculateScore toLowerCase video (source\<lparr>preferredDurations := None\<rparr>)
     = laterRules toLowerCase video source (0, [])"
  by (simp add: calculateScore_laterRules ngHit_durations laterRules_durations durationRule_def)

lemma inBucket_simps:
  "inBucket ''short'' (Exact sec) \<longleftrightarrow> 0 < sec \<and> sec < 240"
  "inBucket ''medium'' (Exact sec) \<longleftrightarrow> 240 \<le> sec \<and> sec \<le> 1200"
  "inBucket ''long'' (Exact sec) \<longleftrightarrow> 1200 < sec"
  by simp_all

lemma durationMatch_Exact: "durationMatch ds (Exact sec) \<longleftrightarrow> (\<exists>b \<in> set ds. inBucket b (Exact sec))"
proof
  assume "durationMatch ds (Exact sec)"
  then consider "''short'' \<in> set ds \<and> inBucket ''short'' (Exact sec)"
    | "''medium'' \<in> set ds \<and> inBucket ''medium'' (Exact sec)"
    | "''long'' \<in> set ds \<and> inBucket ''long'' (Exact sec)"
    unfolding durationMatch_def inBucket_simps numGt_def numLt_def numGe_def numLe_def
    by auto
  then show "\<exists>b \<in> set ds. inBucket b (Exact sec)" by cases blast+
next
  assume "\<exists>b \<in> set ds. inBucket b (Exact sec)"
  then obtain b where b: "b \<in> set ds" "inBucket b (Exact sec)" by blast
  then consider "b = ''short''" | "b = ''medium''" | "b = ''long''"
    by (metis inBucket.simps(1))
  then show "durationMatch ds (Exact sec)"
  proof cases
    case 1
    then have "''short'' \<in> set ds" "0 < sec \<and> sec < 240" using b inBucket_simps(1) by blast+
    then show ?thesis by (simp add: durationMatch_def numGt_def numLt_def)
  next
    case 2
    then have "''medium'' \<in> set ds" "240 \<le> sec \<and> sec \<le> 1200" using b inBucket_simps(2) by blast+
    then show ?thesis by (simp add: durationMatch_def numGe_def numLe_def)
  next
    case 3
    then have "''long'' \<in> set ds" "1200 < sec" using b inBucket_simps(3) by blast+
    then show ?thesis by (simp add: durationMatch_def numGt_def)
  qed
qed

lemma durationMatch_Beyond: "durationMatch ds Beyond \<longleftrightarrow> (\<exists>b \<in> set ds. inBucket b Beyond)"
  by (simp add: durationMatch_def numGt_def numLt_def numGe_def numLe_def)

lemma durationMatch_inBucket: "durationMatch ds sec \<longleftrightarrow> (\<exists>b \<in> set ds. inBucket b sec)"
  by (cases sec) (simp_all only: durationMatch_Exact durationMatch_Beyond)

lemma numGt_parseDurationToSeconds:
  "numGt (parseDurationToSeconds t) 0 \<longleftrightarrow> parseDurationToSeconds t \<noteq> Exact 0"
proof (cases "parseDurationToSeconds t")
  case (Exact n)
  then show ?thesis using parseDurationToSeconds_nonneg [OF Exact] by (auto simp: numGt_def)
next
  case Beyond
  then show ?thesis by (simp add: numGt_def)
qed

lemma ngHit_None_iff:
  "ngHit toLowerCase video source = None \<longleftrightarrow>
     (\<forall>k \<in> set (case ngKeywords source of None \<Rightarrow> [] | Some kws \<Rightarrow> kws).
        \<not> occursIgnoringCase toLowerCase k video)"
  by (auto simp: ngHit_find find_None_iff split: option.splits)

text \<open>
  Claim C2.  Let no NG keyword match (none has its lower-cased form in the lower-cased
  text of the video) and let \<open>preferredDurations\<close> be a non-empty list.  Compare with the
  result for the same source without a duration preference.  When that result is an
  exception, so is this one.  Otherwise exactly one of three things happens: when the
  parsed duration lies in a preferred bucket (short: strictly between 0 and 240 seconds,
  medium: 240 to 1200 seconds, long: more than 1200 seconds) the score is 200 higher and
  the reason \<open>Duration Match (Priority)\<close> comes first; otherwise, when the parsed duration
  is not 0, the score is 500 lower and the reason \<open>Duration Mismatch (Penalty)\<close> comes
  first; and when the duration parses to 0 the result is unchanged.  This holds whatever
  function \<open>toLowerCase\<close> is.
\<close>

theorem calculateScore_duration:
  assumes "\<forall>k \<in> set (case ngKeywords source of None \<Rightarrow> [] | Some kws \<Rightarrow> kws).
             \<not> occursIgnoringCase toLowerCase k video"
    and "preferredDurations source = Some ds" and "ds \<noteq> []"
  shows "calculateScore toLowerCase video source =
     (case calculateScore toLowerCase video (source\<lparr>preferredDurations := None\<rparr>) of
        Inl e \<Rightarrow> Inl e
      | Inr base \<Rightarrow>
          Inr (if \<exists>b \<in> set ds. inBucket b (parseDurationToSeconds (isoDuration video))
               then (fst base + 200, ''Duration Match (Priority)'' # snd base)
               else if parseDurationToSeconds (isoDuration video) \<noteq> Exact 0
               then (fst base - 500, ''Duration Mismatch (Penalty)'' # snd base)
               else base))"
proof -
  let ?sec = "parseDurationToSeconds (isoDuration video)"
  let ?later = "laterRules toLowerCase video source"
  have ng: "ngHit toLowerCase video source = None" using assms(1) by (simp add: ngHit_None_iff)
  have base: "calculateScore toLowerCase video (source\<lparr>preferredDurations := None\<rparr>) = ?later (0, [])"
    using ng by (rule calculateScore_no_durations)
  have full: "calculateScore toLowerCase video source = ?later (durationRule video source (0, []))"
    using ng by (rule calculateScore_laterRules)
  have dur: "durationRule video source (0, []) =
      (if \<exists>b \<in> set ds. inBucket b ?sec then (200, [''Duration Match (Priority)''])
       else if ?sec \<noteq> Exact 0 then (- 500, [''Duration Mismatch (Penalty)''])
       else (0, []))"
    using assms(2,3)
    by (simp add: durationRule_def durationMatch_inBucket numGt_parseDurationToSeconds)
  have add: "?later (sc, rs) = shiftTally sc rs (?later (0, []))" for sc rs
    using throwing_laterRules by (rule throwingD)
  show ?thesis
    unfolding full base dur
    by (cases "?later (0, [])") (simp_all add: add [of 200] add [of "- 500"] shiftTally_def)
qed

text \<open>
  Claim C2, instances with the preference \<open>medium\<close> and an NG keyword that does not
  occur: 300 seconds gives the bonus, 50 seconds the penalty, and the empty duration
  string neither.
\<close>

theorem calculateScore_duration_witness:
  "preferredDurations (exampleSource\<lparr>preferredDurations := Some [''medium''], ngKeywords := Some [''horror'']\<rparr>)
      = Some [''medium'']
   \<and> \<not> occursIgnoringCase asciiLowerCase ''horror'' exampleVideo
   \<and> parseDurationToSeconds (isoDuration exampleVideo) = Exact 300
   \<and> calculateScore asciiLowerCase exampleVideo
        (exampleSource\<lparr>preferredDurations := Some [''medium''], ngKeywords := Some [''horror'']\<rparr>)
       = Inr (240, [''Duration Match (Priority)'', ''Genre Match: cooking''])
   \<and> parseDurationToSeconds (isoDuration (exampleVideo\<lparr>isoDuration := ''PT50S''\<rparr>)) = Exact 50
   \<and> calculateScore asciiLowerCase (exampleVideo\<lparr>isoDuration := ''PT50S''\<rparr>)
        (exampleSource\<lparr>preferredDurations := Some [''medium''], ngKeywords := Some [''horror'']\<rparr>)
       = Inr (- 460, [''Duration Mismatch (Penalty)'', ''Genre Match: cooking''])
   \<and> parseDurationToSeconds (isoDuration (exampleVideo\<lparr>isoDuration := ''''\<rparr>)) = Exact 0
   \<and> calculateScore asciiLowerCase (exampleVideo\<lparr>isoDuration := ''''\<rparr>)
        (exampleSource\<lparr>preferredDurations := Some [''medium''], ngKeywords := Some [''horror'']\<rparr>)
       = Inr (40, [''Genre Match: cooking''])"
proof -
  let ?src = "exampleSource\<lparr>preferredDurations := Some [''medium''], ngKeywords := Some [''horror'']\<rparr>"
  let ?v2 = "exampleVideo\<lparr>isoDuration := ''PT50S''\<rparr>"
  let ?v3 = "exampleVideo\<lparr>isoDuration := ''''\<rparr>"
  have n1: "\<not> occursIgnoringCase asciiLowerCase ''horror'' exampleVideo"
    unfolding occursIgnoringCase_includes by code_simp
  have n2: "\<not> occursIgnoringCase asciiLowerCase ''horror'' ?v2"
    unfolding occursIgnoringCase_includes by code_simp
  have n3: "\<not> occursIgnoringCase asciiLowerCase ''horror'' ?v3"
    unfolding occursIgnoringCase_includes by code_simp
  have ng: "\<forall>k \<in> set (case ngKeywords ?src of None \<Rightarrow> [] | Some kws \<Rightarrow> kws).
      \<not> occursIgnoringCase asciiLowerCase k v"
    if "\<not> occursIgnoringCase asciiLowerCase ''horror'' v" for v :: Video
    using that by simp
  have pd: "preferredDurations ?src = Some [''medium'']" by simp
  have ne: "[''medium''] \<noteq> []" by simp
  have s1: "parseDurationToSeconds (isoDuration exampleVideo) = Exact 300" by code_simp
  have s2: "parseDurationToSeconds (isoDuration ?v2) = Exact 50" by code_simp
  have s3: "parseDurationToSeconds (isoDuration ?v3) = Exact 0" by code_simp
  have b1: "calculateScore asciiLowerCase exampleVideo (?src\<lparr>preferredDurations := None\<rparr>)
      = Inr (40, [''Genre Match: cooking''])" by code_simp
  have b2: "calculateScore asciiLowerCase ?v2 (?src\<lparr>preferredDurations := None\<rparr>)
      = Inr (40, [''Genre Match: cooking''])" by code_simp
  have b3: "calculateScore asciiLowerCase ?v3 (?src\<lparr>preferredDurations := None\<rparr>)
      = Inr (40, [''Genre Match: cooking''])" by code_simp
  have r1: "calculateScore asciiLowerCase exampleVideo ?src
       = Inr (240, [''Duration Match (Priority)'', ''Genre Match: cooking''])"
    using calculateScore_duration [OF ng [OF n1] pd ne]
    unfolding s1 b1 by (simp add: inBucket_simps)
  have r2: "calculateScore asciiLowerCase ?v2 ?src
       = Inr (- 460, [''Duration Mismatch (Penalty)'', ''Genre Match: cooking''])"
    using calculateScore_duration [OF ng [OF n2] pd ne]
    unfolding s2 b2 by (simp add: inBucket_simps)
  have r3: "calculateScore asciiLowerCase ?v3 ?src
       = Inr (40, [''Genre Match: cooking''])"
    using calculateScore_duration [OF ng [OF n3] pd ne]
    unfolding s3 b3 by (simp add: inBucket_simps)
  show ?thesis using pd n1 s1 s2 s3 r1 r2 r3 by blast
qed

text \<open>
  What the freshness rule does: compared with the same source without a freshness
  preference, 20 is added and the reason \<open>Fresh\<close> appended exactly when the preference is
  \<open>new\<close> and the recency text contains one of the four markers of \<open>isFresh\<close>.
\<close>

lemma calculateScore_freshness:
  assumes "ngHit toLowerCase video source = None"
  shows "calculateScore toLowerCase video source =
     (case calculateScore toLowerCase video (source\<lparr>preferredFreshness := None\<rparr>) of
        Inl e \<Rightarrow> Inl e
      | Inr base \<Rightarrow>
          Inr (if preferredFreshness source = Some ''new'' \<and> isFresh (uploadedAt video)
               then (fst base + 20, snd base @ [''Fresh''])
               else base))"
proof -
  let ?src = "source\<lparr>preferredFreshness := None\<rparr>"
  let ?t = "contextRule toLowerCase video source (genreRule toLowerCase video source
              (subscribedRule toLowerCase video source
                (preferredChannelRule toLowerCase video source (durationRule video source (0, [])))))"
  have ng: "ngHit toLowerCase video ?src = None" using assms by (simp add: ngHit_def)
  have same: "contextRule toLowerCase video ?src (genreRule toLowerCase video ?src
              (subscribedRule toLowerCase video ?src
                (preferredChannelRule toLowerCase video ?src (durationRule video ?src (0, []))))) = ?t"
    by (simp add: contextRule_def genreRule_def subscribedRule_def preferredChannelRule_def
        durationRule_def)
  have base: "calculateScore toLowerCase video ?src = (case ?t of Inl e \<Rightarrow> Inl e | Inr t \<Rightarrow> Inr t)"
    using ng same by (simp add: calculateScore_def freshnessRule_def split: sum.splits)
  have full: "calculateScore toLowerCase video source
      = (case ?t of Inl e \<Rightarrow> Inl e | Inr t \<Rightarrow> Inr (freshnessRule video source t))"
    using assms by (simp add: calculateScore_def)
  show ?thesis
    unfolding full base by (cases ?t) (auto simp: freshnessRule_def)
qed

text \<open>
  Claim C9 fails on the code.  With the freshness preference \<open>new\<close>, a video uploaded
  \<open>5 minutes ago\<close> or \<open>2 days ago\<close> gets no freshness bonus (the score stays 40, from
  the genre match), while \<open>5 hours ago\<close> and the Japanese minutes-ago phrasing get it:
  the English markers for minutes and days are missing from the list of the source.
\<close>

theorem calculateScore_minutes_ago:
  "calculateScore asciiLowerCase (exampleVideo\<lparr>uploadedAt := ''5 minutes ago''\<rparr>)
       (exampleSource\<lparr>preferredFreshness := Some ''new''\<rparr>) = Inr (40, [''Genre Match: cooking''])
   \<and> calculateScore asciiLowerCase (exampleVideo\<lparr>uploadedAt := ''2 days ago''\<rparr>)
       (exampleSource\<lparr>preferredFreshness := Some ''new''\<rparr>) = Inr (40, [''Genre Match: cooking''])
   \<and> calculateScore asciiLowerCase (exampleVideo\<lparr>uploadedAt := ''5 hours ago''\<rparr>)
       (exampleSource\<lparr>preferredFreshness := Some ''new''\<rparr>)
       = Inr (60, [''Genre Match: cooking'', ''Fresh''])
   \<and> calculateScore asciiLowerCase (exampleVideo\<lparr>uploadedAt := ''5'' @ minutesAgoJa\<rparr>)
       (exampleSource\<lparr>preferredFreshness := Some ''new''\<rparr>)
       = Inr (60, [''Genre Match: cooking'', ''Fresh''])"
  by code_simp

section \<open>Properties of the aggregation and of the ranking\<close>

lemma collectCandidates_foldl:
  "foldl (\<lambda>rawCandidates res.
            case res of Fulfilled vs \<Rightarrow> rawCandidates @ vs | Rejected e \<Rightarrow> rawCandidates) acc results
   = acc @ concat (map (\<lambda>res. case res of Fulfilled vs \<Rightarrow> vs | Rejected e \<Rightarrow> []) results)"
  by (induction results arbitrary: acc) (auto split: promise.splits)

lemma collectCandidates_concat:
  "collectCandidates results
     = concat (map (\<lambda>res. case res of Fulfilled vs \<Rightarrow> vs | Rejected e \<Rightarrow> []) results)"
  by (simp add: collectCandidates_def collectCandidates_foldl)

lemma collectCandidates_Fulfilled: "collectCandidates (map Fulfilled fetched) = concat fetched"
  by (simp add: collectCandidates_concat comp_def)

lemma foldl_dedupStep:
  "foldl dedupStep (S, acc) vs = (S \<union> idV ` set vs, acc @ firstSeen S vs)"
  by (induction vs arbitrary: S acc) (auto simp: dedupStep_def)

lemma deduplicate_firstSeen: "deduplicate vs = firstSeen {} vs"
  by (simp add: deduplicate_def foldl_dedupStep)

lemma firstSeen_ids: "idV ` set (firstSeen S vs) = idV ` set vs - S"
  by (induction vs arbitrary: S) auto

lemma firstSeen_distinct: "distinct (map idV (firstSeen S vs))"
proof (induction vs arbitrary: S)
  case Nil
  show ?case by simp
next
  case (Cons v vs)
  have "idV v \<notin> idV ` set (firstSeen (insert (idV v) S) vs)"
    by (simp add: firstSeen_ids)
  then show ?case using Cons by simp
qed

lemma firstSeen_subseq: "subseq (firstSeen S vs) vs"
  by (induction vs arbitrary: S) auto

lemma firstSeen_find:
  "v \<in> set (firstSeen S vs) \<Longrightarrow> find (\<lambda>w. idV w = idV v) vs = Some v"
proof (induction vs arbitrary: S)
  case Nil
  then show ?case by simp
next
  case (Cons x xs)
  show ?case
  proof (cases "idV x \<in> S")
    case True
    then have v: "v \<in> set (firstSeen S xs)" using Cons.prems by simp
    then have "idV v \<in> idV ` set xs - S" using firstSeen_ids [of S xs] by blast
    then have "idV x \<noteq> idV v" using True by auto
    then show ?thesis using Cons.IH [OF v] by simp
  next
    case False
    then consider "v = x" | "v \<in> set (firstSeen (insert (idV x) S) xs)"
      using Cons.prems by auto
    then show ?thesis
    proof cases
      case 1
      then show ?thesis by simp
    next
      case 2
      then have "idV v \<in> idV ` set xs - insert (idV x) S"
        using firstSeen_ids [of "insert (idV x) S" xs] by blast
      then have "idV x \<noteq> idV v" by auto
      then show ?thesis using Cons.IH [OF 2] by simp
    qed
  qed
qed

text \<open>
  Claim C5.  The aggregation step appends the fetched lists in the order of the requests
  and removes duplicates by id.  The result has pairwise distinct ids, carries exactly the
  ids of the input, keeps the relative order of the input, and every entry is the first
  candidate of the appended lists that has its id.
\<close>

theorem deduplicate_first_occurrences:
  "collectCandidates (map Fulfilled fetched) = concat fetched
   \<and> distinct (map idV (deduplicate (concat fetched)))
   \<and> idV ` set (deduplicate (concat fetched)) = idV ` set (concat fetched)
   \<and> subseq (deduplicate (concat fetched)) (concat fetched)
   \<and> (\<forall>v \<in> set (deduplicate (concat fetched)).
         find (\<lambda>w. idV w = idV v) (concat fetched) = Some v)"
  using firstSeen_ids [of "{}" "concat fetched"]
  by (simp add: collectCandidates_Fulfilled deduplicate_firstSeen firstSeen_distinct
      firstSeen_subseq firstSeen_find)

text \<open>
  Claim C5, an instance: of two candidates with the id \<open>v1\<close> in different lists, the one
  of the first list is kept.
\<close>

theorem deduplicate_first_occurrences_witness:
  "deduplicate (collectCandidates (map Fulfilled
       [[exampleVideo, exampleVideo\<lparr>idV := ''v2''\<rparr>],
        [exampleVideo\<lparr>title := ''Another copy''\<rparr>, exampleVideo\<lparr>idV := ''v3''\<rparr>]]))
     = [exampleVideo, exampleVideo\<lparr>idV := ''v2''\<rparr>, exampleVideo\<lparr>idV := ''v3''\<rparr>]
   \<and> find (\<lambda>w. idV w = idV exampleVideo)
        (concat [[exampleVideo, exampleVideo\<lparr>idV := ''v2''\<rparr>],
                 [exampleVideo\<lparr>title := ''Another copy''\<rparr>, exampleVideo\<lparr>idV := ''v3''\<rparr>]])
       = Some exampleVideo"
proof -
  let ?L = "[[exampleVideo, exampleVideo\<lparr>idV := ''v2''\<rparr>],
             [exampleVideo\<lparr>title := ''Another copy''\<rparr>, exampleVideo\<lparr>idV := ''v3''\<rparr>]]"
  have ev: "deduplicate (concat ?L)
      = [exampleVideo, exampleVideo\<lparr>idV := ''v2''\<rparr>, exampleVideo\<lparr>idV := ''v3''\<rparr>]"
    by code_simp
  from deduplicate_first_occurrences [of ?L] ev show ?thesis by simp
qed

lemma score_scoreVideo: "score (scoreVideo video t) = fst t"
  by (cases t) (simp add: scoreVideo_def Video.extend_def ScoredVideo.fields_def)

lemma debugReason_scoreVideo: "debugReason (scoreVideo video t) = snd t"
  by (cases t) (simp add: scoreVideo_def Video.extend_def ScoredVideo.fields_def)

lemma truncate_scoreVideo: "Video.truncate (scoreVideo video t) = video"
  by (cases t) (simp add: scoreVideo_def Video.extend_def ScoredVideo.fields_def Video.truncate_def)

lemma scoredAs_Inr:
  "calculateScore toLowerCase video sources = Inr t \<Longrightarrow>
   scoredAs toLowerCase sources video = scoreVideo video t"
  by (simp add: scoredAs_def)

lemma scoredVideos_throws:
  "\<exists>v \<in> set cands. calculateScore toLowerCase v sources = Inl TypeError \<Longrightarrow>
   scoredVideos toLowerCase sources cands = Inl TypeError"
proof (induction cands)
  case Nil
  then show ?case by simp
next
  case (Cons c cs)
  show ?case
  proof (cases "calculateScore toLowerCase c sources")
    case (Inl e)
    then show ?thesis by (cases e) simp
  next
    case (Inr t)
    then have "\<exists>v \<in> set cs. calculateScore toLowerCase v sources = Inl TypeError"
      using Cons.prems by auto
    then show ?thesis using Cons.IH Inr by simp
  qed
qed

lemma scoredVideos_returns:
  "\<not> (\<exists>v \<in> set cands. calculateScore toLowerCase v sources = Inl TypeError) \<Longrightarrow>
   scoredVideos toLowerCase sources cands = Inr (map (scoredAs toLowerCase sources) cands)"
proof (induction cands)
  case Nil
  then show ?case by simp
next
  case (Cons c cs)
  have c: "calculateScore toLowerCase c sources \<noteq> Inl TypeError"
    and cs: "\<not> (\<exists>v \<in> set cs. calculateScore toLowerCase v sources = Inl TypeError)"
    using Cons.prems by auto
  obtain t where t: "calculateScore toLowerCase c sources = Inr t"
  proof (cases "calculateScore toLowerCase c sources")
    case (Inl e)
    then show ?thesis using c by (cases e) simp
  next
    case (Inr t)
    then show ?thesis using that by simp
  qed
  show ?case using Cons.IH [OF cs] t by (simp add: scoredAs_Inr)
qed

lemma scoredAs_fields:
  assumes "calculateScore toLowerCase v sources \<noteq> Inl TypeError"
  shows "calculateScore toLowerCase v sources
           = Inr (score (scoredAs toLowerCase sources v), debugReason (scoredAs toLowerCase sources v))
         \<and> Video.truncate (scoredAs toLowerCase sources v) = v"
proof (cases "calculateScore toLowerCase v sources")
  case (Inl e)
  then show ?thesis using assms by (cases e) simp
next
  case (Inr t)
  then show ?thesis
    by (simp add: scoredAs_Inr score_scoreVideo debugReason_scoreVideo truncate_scoreVideo)
qed

lemma sortByScoreDesc_mset: "mset (sortByScoreDesc vs) = mset vs"
  by (simp add: sortByScoreDesc_def)

lemma sortByScoreDesc_sorted: "sorted_wrt (\<lambda>a b. score b \<le> score a) (sortByScoreDesc vs)"
proof -
  have "sorted (map (\<lambda>v. - score v) (sort_key (\<lambda>v. - score v) vs))"
    by (rule sorted_sort_key)
  then show ?thesis by (simp add: sortByScoreDesc_def sorted_map)
qed

text \<open>
  Claim C8.  When the scoring of a candidate throws, so does the ranking.  Otherwise the
  returned list is the first 50 entries of a list that holds exactly the scored
  candidates with a score above \<open>-100\<close> (so exactly those at or below \<open>-100\<close> are
  rejected) and is sorted by score in descending order; every scored candidate is the
  candidate with the score and the reasons that \<open>calculateScore\<close> gives it.
\<close>

theorem rankCandidates_spec:
  "if \<exists>v \<in> set cands. calculateScore toLowerCase v sources = Inl TypeError
   then rankCandidates toLowerCase sources cands = Inl TypeError
   else (\<exists>ys. mset ys = filter_mset (\<lambda>v. - 100 < score v)
                          (mset (map (scoredAs toLowerCase sources) cands))
          \<and> sorted_wrt (\<lambda>a b. score b \<le> score a) ys
          \<and> rankCandidates toLowerCase sources cands = Inr (take 50 ys)
          \<and> length (take 50 ys) \<le> 50
          \<and> (\<forall>v \<in> set cands.
                calculateScore toLowerCase v sources
                  = Inr (score (scoredAs toLowerCase sources v),
                         debugReason (scoredAs toLowerCase sources v))
                \<and> Video.truncate (scoredAs toLowerCase sources v) = v))"
proof (cases "\<exists>v \<in> set cands. calculateScore toLowerCase v sources = Inl TypeError")
  case True
  then show ?thesis using scoredVideos_throws [OF True] by (simp add: rankCandidates_def)
next
  case False
  let ?scored = "map (scoredAs toLowerCase sources) cands"
  let ?ys = "sortByScoreDesc (validVideos ?scored)"
  have m: "mset ?ys = filter_mset (\<lambda>v. - 100 < score v) (mset ?scored)"
    by (simp add: sortByScoreDesc_mset validVideos_def)
  have s: "sorted_wrt (\<lambda>a b. score b \<le> score a) ?ys" by (rule sortByScoreDesc_sorted)
  have r: "rankCandidates toLowerCase sources cands = Inr (take 50 ?ys)"
    using scoredVideos_returns [OF False] by (simp add: rankCandidates_def)
  have l: "length (take 50 ?ys) \<le> 50" by simp
  have f: "\<forall>v \<in> set cands.
      calculateScore toLowerCase v sources
        = Inr (score (scoredAs toLowerCase sources v), debugReason (scoredAs toLowerCase sources v))
      \<and> Video.truncate (scoredAs toLowerCase sources v) = v"
    using False scoredAs_fields by blast
  from m s r l f have "\<exists>ys. mset ys = filter_mset (\<lambda>v. - 100 < score v) (mset ?scored)
          \<and> sorted_wrt (\<lambda>a b. score b \<le> score a) ys
          \<and> rankCandidates toLowerCase sources cands = Inr (take 50 ys)
          \<and> length (take 50 ys) \<le> 50
          \<and> (\<forall>v \<in> set cands.
                calculateScore toLowerCase v sources
                  = Inr (score (scoredAs toLowerCase sources v),
                         debugReason (scoredAs toLowerCase sources v))
                \<and> Video.truncate (scoredAs toLowerCase sources v) = v)"
    by blast
  then show ?thesis using False by simp
qed

text \<open>
  Claim C8, an instance: of five candidates the one with an NG keyword (\<open>-10000\<close>) and
  the one with a duration mismatch (\<open>-460\<close>) are rejected, and the others are returned by
  descending score, the score 0 included.  With a context preference named
  \<open>constructor\<close> the scoring of the first candidate throws, and so does the ranking.
\<close>

theorem rankCandidates_spec_witness:
  "\<not> (\<exists>v \<in> set [exampleVideo\<lparr>idV := ''v4'', title := ''Plain''\<rparr>,
         exampleVideo\<lparr>idV := ''v2'', title := ''Horror cooking''\<rparr>,
         exampleVideo\<lparr>idV := ''v3'', isoDuration := ''PT50S''\<rparr>,
         exampleVideo,
         exampleVideo\<lparr>idV := ''v5'', title := ''Plain'', isoDuration := []\<rparr>].
        calculateScore asciiLowerCase v
          (exampleSource\<lparr>ngKeywords := Some [''horror''], preferredDurations := Some [''medium'']\<rparr>)
          = Inl TypeError)
   \<and> (\<exists>vs. rankCandidates asciiLowerCase
        (exampleSource\<lparr>ngKeywords := Some [''horror''], preferredDurations := Some [''medium'']\<rparr>)
        [exampleVideo\<lparr>idV := ''v4'', title := ''Plain''\<rparr>,
         exampleVideo\<lparr>idV := ''v2'', title := ''Horror cooking''\<rparr>,
         exampleVideo\<lparr>idV := ''v3'', isoDuration := ''PT50S''\<rparr>,
         exampleVideo,
         exampleVideo\<lparr>idV := ''v5'', title := ''Plain'', isoDuration := []\<rparr>] = Inr vs
       \<and> map (\<lambda>v. (idV v, score v)) vs = [(''v1'', 240), (''v4'', 200), (''v5'', 0)]
       \<and> length vs \<le> 50)
   \<and> rankCandidates asciiLowerCase
        (exampleSource\<lparr>ngKeywords := Some [''horror''], preferredDurations := Some [''medium''],
           prefDepth := Some ''constructor''\<rparr>)
        [exampleVideo\<lparr>idV := ''v4'', title := ''Plain''\<rparr>,
         exampleVideo\<lparr>idV := ''v2'', title := ''Horror cooking''\<rparr>,
         exampleVideo\<lparr>idV := ''v3'', isoDuration := ''PT50S''\<rparr>,
         exampleVideo,
         exampleVideo\<lparr>idV := ''v5'', title := ''Plain'', isoDuration := []\<rparr>] = Inl TypeError"
proof -
  let ?s = "exampleSource\<lparr>ngKeywords := Some [''horror''], preferredDurations := Some [''medium'']\<rparr>"
  let ?t = "exampleSource\<lparr>ngKeywords := Some [''horror''], preferredDurations := Some [''medium''],
           prefDepth := Some ''constructor''\<rparr>"
  let ?c = "[exampleVideo\<lparr>idV := ''v4'', title := ''Plain''\<rparr>,
         exampleVideo\<lparr>idV := ''v2'', title := ''Horror cooking''\<rparr>,
         exampleVideo\<lparr>idV := ''v3'', isoDuration := ''PT50S''\<rparr>,
         exampleVideo,
         exampleVideo\<lparr>idV := ''v5'', title := ''Plain'', isoDuration := []\<rparr>]"
  have no: "\<not> (\<exists>v \<in> set ?c. calculateScore asciiLowerCase v ?s = Inl TypeError)"
    by code_simp
  have ev: "map_sum id (map (\<lambda>v. (idV v, score v))) (rankCandidates asciiLowerCase ?s ?c)
      = Inr [(''v1'', 240), (''v4'', 200), (''v5'', 0)]"
    by code_simp
  obtain ys where ys: "rankCandidates asciiLowerCase ?s ?c = Inr (take 50 ys)"
      "length (take 50 ys) \<le> 50"
    using rankCandidates_spec [of ?c asciiLowerCase ?s] no by auto
  have a: "\<exists>vs. rankCandidates asciiLowerCase ?s ?c = Inr vs
       \<and> map (\<lambda>v. (idV v, score v)) vs = [(''v1'', 240), (''v4'', 200), (''v5'', 0)]
       \<and> length vs \<le> 50"
    using ev ys by auto
  have "calculateScore asciiLowerCase (exampleVideo\<lparr>idV := ''v4'', title := ''Plain''\<rparr>) ?t
      = Inl TypeError"
    by code_simp
  then have "\<exists>v \<in> set ?c. calculateScore asciiLowerCase v ?t = Inl TypeError" by simp
  then have b: "rankCandidates asciiLowerCase ?t ?c = Inl TypeError"
    using rankCandidates_spec [of ?c asciiLowerCase ?t] by simp
  show ?thesis using no a b by blast
qed

section \<open>Properties of the pool mixer\<close>

lemma mixStep_shape:
  "(idxA st < length A \<and> mixStep ident A B r st = emit ident (A ! idxA st) (st\<lparr>idxA := idxA st + 1\<rparr>))
   \<or> (idxB st < length B \<and> mixStep ident A B r st = emit ident (B ! idxB st) (st\<lparr>idxB := idxB st + 1\<rparr>))
   \<or> (\<not> idxA st < length A \<and> \<not> idxB st < length B \<and> mixStep ident A B r st = st)"
  by (simp add: mixStep_def emit_def Let_def)

lemma emit_fields:
  "idxA (emit ident c st) = idxA st" "idxB (emit ident c st) = idxB st"
  by (simp_all add: emit_def)

lemma mixStep_progress:
  assumes "idxA st \<le> length A" "idxB st \<le> length B"
  shows "idxA (mixStep ident A B r st) + idxB (mixStep ident A B r st)
           = min (idxA st + idxB st + 1) (length A + length B)
         \<and> idxA (mixStep ident A B r st) \<le> length A \<and> idxB (mixStep ident A B r st) \<le> length B"
  using mixStep_shape [of st A ident B r] assms
  by (auto simp: emit_fields)

lemma emit_inv_A:
  assumes "mixInv ident A B st" "idxA st < length A"
  shows "mixInv ident A B (emit ident (A ! idxA st) (st\<lparr>idxA := idxA st + 1\<rparr>))"
  using assms
  by (auto simp: mixInv_def emit_def take_Suc_conv_app_nth)

lemma emit_inv_B:
  assumes "mixInv ident A B st" "idxB st < length B"
  shows "mixInv ident A B (emit ident (B ! idxB st) (st\<lparr>idxB := idxB st + 1\<rparr>))"
  using assms
  by (auto simp: mixInv_def emit_def take_Suc_conv_app_nth)

lemma mixStep_inv: "mixInv ident A B st \<Longrightarrow> mixInv ident A B (mixStep ident A B r st)"
  using mixStep_shape [of st A ident B r] emit_inv_A [of ident A B st] emit_inv_B [of ident A B st]
  by auto

lemma mixLoop_inv:
  "mixInv ident A B st \<Longrightarrow> mixInv ident A B (mixLoop ident A B r n st)"
  by (induction n arbitrary: st) (auto intro: mixStep_inv)

lemma mixLoop_progress:
  assumes "idxA st \<le> length A" "idxB st \<le> length B"
  shows "idxA (mixLoop ident A B r n st) + idxB (mixLoop ident A B r n st)
           = min (idxA st + idxB st + n) (length A + length B)
         \<and> idxA (mixLoop ident A B r n st) \<le> length A \<and> idxB (mixLoop ident A B r n st) \<le> length B"
  using assms
proof (induction n arbitrary: st)
  case 0
  then show ?case by simp
next
  case (Suc n)
  let ?st = "mixStep ident A B r st"
  have p: "idxA ?st + idxB ?st = min (idxA st + idxB st + 1) (length A + length B)"
    "idxA ?st \<le> length A" "idxB ?st \<le> length B"
    using mixStep_progress [OF Suc.prems, of ident r] by auto
  show ?case using Suc.IH [OF p(2,3)] p(1) by auto
qed

lemma mixInit_inv: "mixInv ident A B \<lparr>result = [], seenIds = {}, idxA = 0, idxB = 0\<rparr>"
  by (simp add: mixInv_def)

lemma mixFeeds_final:
  defines "fin ident A B r \<equiv> mixLoop ident A B r (length A + length B)
                \<lparr>result = [], seenIds = {}, idxA = 0, idxB = 0\<rparr>"
  shows "mixInv ident A B (fin ident A B r) \<and> idxA (fin ident A B r) = length A
         \<and> idxB (fin ident A B r) = length B"
proof -
  have "idxA (fin ident A B r) + idxB (fin ident A B r) = length A + length B
      \<and> idxA (fin ident A B r) \<le> length A \<and> idxB (fin ident A B r) \<le> length B"
    unfolding fin_def
    using mixLoop_progress [of "\<lparr>result = [], seenIds = {}, idxA = 0, idxB = 0\<rparr>" A B ident r "length A + length B"]
    by simp
  then show ?thesis
    unfolding fin_def using mixLoop_inv [OF mixInit_inv, of ident A B r "length A + length B"] by auto
qed

text \<open>
  Claim C4.  For all pools and every ratio the ids of the merged list are pairwise
  distinct, and they are exactly the ids that occur in the two pools: an id that occurs in
  both pools, or several times in one, is carried by exactly one entry of the result.
\<close>

theorem mixFeeds_unique_ids:
  "distinct (map ident (mixFeeds ident A B r))
   \<and> ident ` set (mixFeeds ident A B r) = ident ` (set A \<union> set B)"
  using mixFeeds_final [of ident A B r]
  by (simp add: mixFeeds_def mixInv_def Let_def)

lemma snoc_in_shuffles_single: "ys @ [c] \<in> shuffles [c] ys"
  by (induction ys) auto

lemma snoc_in_shuffles_left: "zs \<in> shuffles xs ys \<Longrightarrow> zs @ [c] \<in> shuffles (xs @ [c]) ys"
proof (induction xs ys arbitrary: zs rule: shuffles.induct)
  case (1 ys)
  then show ?case by (simp add: snoc_in_shuffles_single)
next
  case (2 xs)
  then show ?case by simp
next
  case (3 x xs y ys)
  then show ?case by auto
qed

lemma snoc_in_shuffles_right: "zs \<in> shuffles xs ys \<Longrightarrow> zs @ [c] \<in> shuffles xs (ys @ [c])"
  using snoc_in_shuffles_left [of zs ys xs c] by (simp add: shuffles_commutes)

lemma nth_not_in_take:
  assumes "distinct (map f xs)" "i < length xs"
  shows "f (xs ! i) \<notin> f ` set (take i xs)"
proof
  assume "f (xs ! i) \<in> f ` set (take i xs)"
  then obtain y where y: "y \<in> set (take i xs)" "f (xs ! i) = f y" by blast
  then obtain j where j: "j < i" "y = xs ! j"
    using assms(2) by (auto simp: in_set_conv_nth)
  then have e: "map f xs ! i = map f xs ! j" using y assms(2) by simp
  have "i < length (map f xs)" "j < length (map f xs)" using assms(2) j by simp_all
  then have "i = j" using nth_eq_iff_index_eq [OF assms(1)] e by blast
  then show False using j by simp
qed

lemma fresh_A:
  assumes "distinct (map ident (A @ B))" "mixInv ident A B st" "idxA st < length A"
  shows "ident (A ! idxA st) \<notin> seenIds (st\<lparr>idxA := idxA st + 1\<rparr>)"
proof -
  have d: "distinct (map ident A)" "ident ` set A \<inter> ident ` set B = {}" using assms(1) by auto
  have "ident (A ! idxA st) \<notin> ident ` set (take (idxA st) A)"
    using nth_not_in_take [OF d(1) assms(3)] .
  moreover have "A ! idxA st \<in> set A" using assms(3) by simp
  then have "ident (A ! idxA st) \<notin> ident ` set (take (idxB st) B)"
    using d(2) by (auto dest!: in_set_takeD)
  ultimately show ?thesis using assms(2) by (simp add: mixInv_def image_Un)
qed

lemma fresh_B:
  assumes "distinct (map ident (A @ B))" "mixInv ident A B st" "idxB st < length B"
  shows "ident (B ! idxB st) \<notin> seenIds (st\<lparr>idxB := idxB st + 1\<rparr>)"
proof -
  have d: "distinct (map ident B)" "ident ` set A \<inter> ident ` set B = {}" using assms(1) by auto
  have "ident (B ! idxB st) \<notin> ident ` set (take (idxB st) B)"
    using nth_not_in_take [OF d(1) assms(3)] .
  moreover have "B ! idxB st \<in> set B" using assms(3) by simp
  then have "ident (B ! idxB st) \<notin> ident ` set (take (idxA st) A)"
    using d(2) by (auto dest!: in_set_takeD)
  ultimately show ?thesis using assms(2) by (simp add: mixInv_def image_Un)
qed

lemma mixStep_order:
  assumes "distinct (map ident (A @ B))" "mixInv ident A B st" "mixOrder A B st"
  shows "mixOrder A B (mixStep ident A B r st)"
proof -
  consider (a) "idxA st < length A"
      "mixStep ident A B r st = emit ident (A ! idxA st) (st\<lparr>idxA := idxA st + 1\<rparr>)"
    | (b) "idxB st < length B"
      "mixStep ident A B r st = emit ident (B ! idxB st) (st\<lparr>idxB := idxB st + 1\<rparr>)"
    | (c) "mixStep ident A B r st = st"
    using mixStep_shape [of st A ident B r] by blast
  then show ?thesis
  proof cases
    case a
    have "result st @ [A ! idxA st] \<in> shuffles (take (idxA st) A @ [A ! idxA st]) (take (idxB st) B)"
      using assms(3) by (simp add: mixOrder_def snoc_in_shuffles_left)
    then show ?thesis
      using a fresh_A [OF assms(1,2) a(1)]
      by (simp add: mixOrder_def emit_def take_Suc_conv_app_nth)
  next
    case b
    have "result st @ [B ! idxB st] \<in> shuffles (take (idxA st) A) (take (idxB st) B @ [B ! idxB st])"
      using assms(3) by (simp add: mixOrder_def snoc_in_shuffles_right)
    then show ?thesis
      using b fresh_B [OF assms(1,2) b(1)]
      by (simp add: mixOrder_def emit_def take_Suc_conv_app_nth)
  next
    case c
    then show ?thesis using assms(3) by simp
  qed
qed

lemma mixLoop_order:
  assumes "distinct (map ident (A @ B))"
  shows "mixInv ident A B st \<Longrightarrow> mixOrder A B st \<Longrightarrow> mixOrder A B (mixLoop ident A B r n st)"
proof (induction n arbitrary: st)
  case 0
  then show ?case by simp
next
  case (Suc n)
  show ?case
    using Suc.IH [OF mixStep_inv [OF Suc.prems(1)] mixStep_order [OF assms Suc.prems]]
    by simp
qed

lemma mixFeeds_in_shuffles:
  assumes "distinct (map ident (A @ B))"
  shows "mixFeeds ident A B r \<in> shuffles A B"
proof -
  let ?init = "\<lparr>result = [], seenIds = {}, idxA = 0, idxB = 0\<rparr> :: 'a mixState"
  let ?fin = "mixLoop ident A B r (length A + length B) ?init"
  have "mixOrder A B ?init" by (simp add: mixOrder_def)
  then have "mixOrder A B ?fin" using mixLoop_order [OF assms mixInit_inv] by blast
  moreover have "idxA ?fin = length A" "idxB ?fin = length B"
    using mixFeeds_final [of ident A B r] by auto
  ultimately show ?thesis by (simp add: mixOrder_def mixFeeds_def Let_def)
qed

text \<open>
  Claim C3.  When the ids are pairwise distinct within and across the two lists, then for
  every ratio the result is an interleaving of the two lists: it holds every element of
  both exactly once, and the elements of each list appear in the order of that list.
\<close>

theorem mixFeeds_keeps_all_in_order:
  assumes "distinct (map ident (A @ B))"
  shows "mixFeeds ident A B r \<in> shuffles A B
         \<and> mset (mixFeeds ident A B r) = mset A + mset B
         \<and> distinct (mixFeeds ident A B r)
         \<and> filter (\<lambda>v. v \<in> set A) (mixFeeds ident A B r) = A
         \<and> filter (\<lambda>v. v \<in> set B) (mixFeeds ident A B r) = B"
proof -
  have sh: "mixFeeds ident A B r \<in> shuffles A B" using assms by (rule mixFeeds_in_shuffles)
  have d: "distinct A" "distinct B" "set A \<inter> set B = {}"
    using assms by (auto simp: distinct_map)
  show ?thesis
    using sh mset_shuffles [OF sh] distinct_disjoint_shuffles [OF d sh]
      filter_shuffles_disjoint1(1) [OF d(3) sh] filter_shuffles_disjoint2(1) [OF d(3) sh]
    by simp
qed

text \<open>
  Claim C3, the instance of the specification: three discovery entries, two comfort
  entries and the ratio 0.65.
\<close>

theorem mixFeeds_keeps_all_in_order_witness:
  "distinct (map id ([''a1'', ''a2'', ''a3''] @ [''b1'', ''b2'']))
   \<and> mixFeeds id [''a1'', ''a2'', ''a3''] [''b1'', ''b2''] (65 / 100)
       = [''a1'', ''a2'', ''b1'', ''a3'', ''b2'']
   \<and> filter (\<lambda>v. v \<in> set [''a1'', ''a2'', ''a3''])
        (mixFeeds id [''a1'', ''a2'', ''a3''] [''b1'', ''b2''] (65 / 100)) = [''a1'', ''a2'', ''a3'']
   \<and> filter (\<lambda>v. v \<in> set [''b1'', ''b2''])
        (mixFeeds id [''a1'', ''a2'', ''a3''] [''b1'', ''b2''] (65 / 100)) = [''b1'', ''b2'']"
proof -
  have h: "distinct (map id ([''a1'', ''a2'', ''a3''] @ [''b1'', ''b2'']))" by simp
  have ev: "mixFeeds id [''a1'', ''a2'', ''a3''] [''b1'', ''b2''] (65 / 100)
       = [''a1'', ''a2'', ''b1'', ''a3'', ''b2'']" by code_simp
  from mixFeeds_keeps_all_in_order [OF h, of "65 / 100"] h ev show ?thesis by blast
qed

text \<open>
  Claim C4, an instance: \<open>a2\<close> occurs in both pools and \<open>b1\<close> twice in the comfort pool;
  each is emitted once.
\<close>

theorem mixFeeds_unique_ids_witness:
  "mixFeeds id [''a1'', ''a2'', ''a3''] [''b1'', ''a2'', ''b1''] (65 / 100)
       = [''a1'', ''a2'', ''b1'', ''a3'']
   \<and> distinct (map id (mixFeeds id [''a1'', ''a2'', ''a3''] [''b1'', ''a2'', ''b1''] (65 / 100)))
   \<and> id ` set (mixFeeds id [''a1'', ''a2'', ''a3''] [''b1'', ''a2'', ''b1''] (65 / 100))
       = id ` (set [''a1'', ''a2'', ''a3''] \<union> set [''b1'', ''a2'', ''b1''])"
proof -
  have ev: "mixFeeds id [''a1'', ''a2'', ''a3''] [''b1'', ''a2'', ''b1''] (65 / 100)
       = [''a1'', ''a2'', ''b1'', ''a3'']" by code_simp
  from mixFeeds_unique_ids [of id "[''a1'', ''a2'', ''a3'']" "[''b1'', ''a2'', ''b1'']" "65 / 100"] ev
  show ?thesis by blast
qed

section \<open>Properties of the filter pipeline of src/utils/recommendation.ts\<close>

lemma foldl_filterStep:
  "foldl (filterStep toLowerCase ngKw prefDur) (S, acc) vs
     = (S \<union> idV ` set vs, acc @ filter (\<lambda>v. \<not> rejected toLowerCase ngKw prefDur v) (firstSeen S vs))"
  by (induction vs arbitrary: S acc) (auto simp: filterStep_def rejected_def)

lemma filterCandidates_firstSeen:
  "filterCandidates toLowerCase ngKw prefDur vs = filter (\<lambda>v. \<not> rejected toLowerCase ngKw prefDur v) (firstSeen {} vs)"
  by (simp add: filterCandidates_def foldl_filterStep)

lemma excludeShorts_subset: "set (excludeShorts prefDur keepShort vs) \<subseteq> set vs"
proof -
  have "snd ` set (filter P (enumerate 0 vs)) \<subseteq> set vs" for P
    by (auto simp: in_set_enumerate_eq)
  then show ?thesis by (auto simp: excludeShorts_def)
qed

lemma shuffleLoop_mset: "i < length xs \<Longrightarrow> mset (shuffleLoop draws i xs) = mset xs"
proof (induction i arbitrary: xs)
  case 0
  then show ?case by simp
next
  case (Suc i)
  let ?j = "floorRandom (draws (Suc i)) (Suc i + 1)"
  have j: "?j < length xs" using Suc.prems by (simp add: floorRandom_def less_le_trans [OF mod_less_divisor])
  have sw: "mset (xs[Suc i := xs ! ?j, ?j := xs ! Suc i]) = mset xs"
    using mset_swap [OF j Suc.prems] .
  have "i < length (xs[Suc i := xs ! ?j, ?j := xs ! Suc i])" using Suc.prems by simp
  from Suc.IH [OF this] sw show ?case by (simp add: Let_def)
qed

lemma shuffleArray_mset: "mset (shuffleArray draws xs) = mset xs"
  by (cases xs) (simp_all add: shuffleArray_def shuffleLoop_mset)

lemma shuffleArray_set: "set (shuffleArray draws xs) = set xs"
  using shuffleArray_mset [of draws xs] by (metis set_mset_mset)

lemma analyzeCombined_subset:
  "set (analyzeCombined toLowerCase ngKw prefDur keepShort draws vs) \<subseteq> set (filterCandidates toLowerCase ngKw prefDur vs)"
proof -
  have "set (analyzeCombined toLowerCase ngKw prefDur keepShort draws vs)
      \<subseteq> set (shuffleArray draws (excludeShorts prefDur keepShort (filterCandidates toLowerCase ngKw prefDur vs)))"
    by (simp add: analyzeCombined_def set_take_subset)
  then show ?thesis using excludeShorts_subset [of prefDur keepShort] by (auto simp: shuffleArray_set)
qed

text \<open>
  Claim C10.  In the loop of \<open>src/utils/recommendation.ts\<close> the id is recorded before the
  filters run.  Hence, when the first candidate with a given id is dropped by the NG
  filter or by the duration filter, no candidate with that id passes the loop, and the
  returned list holds no video with that id.
\<close>

theorem analyzeCombined_first_rejected:
  assumes "find (\<lambda>w. idV w = i) combinedVideos = Some v" and "rejected toLowerCase ngKw prefDur v"
  shows "i \<notin> idV ` set (filterCandidates toLowerCase ngKw prefDur combinedVideos)
         \<and> i \<notin> idV ` set (analyzeCombined toLowerCase ngKw prefDur keepShort draws combinedVideos)"
proof -
  have "idV w \<noteq> i" if w: "w \<in> set (filterCandidates toLowerCase ngKw prefDur combinedVideos)" for w
  proof
    assume e: "idV w = i"
    from w have f: "w \<in> set (firstSeen {} combinedVideos)" and ok: "\<not> rejected toLowerCase ngKw prefDur w"
      by (simp_all add: filterCandidates_firstSeen)
    have "find (\<lambda>x. idV x = idV w) combinedVideos = Some w" using f by (rule firstSeen_find)
    then have "w = v" using assms(1) e by simp
    then show False using ok assms(2) by simp
  qed
  then have a: "i \<notin> idV ` set (filterCandidates toLowerCase ngKw prefDur combinedVideos)" by blast
  then show ?thesis using analyzeCombined_subset [of toLowerCase ngKw prefDur keepShort draws combinedVideos] by blast
qed

text \<open>
  Claim C10, an instance: the first candidate with the id \<open>v1\<close> has the NG word in its
  title and is dropped; the second candidate with that id passes both filters by itself
  (without the first one it is returned), and yet the output has no video with the id
  \<open>v1\<close>.
\<close>

theorem analyzeCombined_first_rejected_witness:
  "find (\<lambda>w. idV w = ''v1'')
      [exampleVideo\<lparr>title := ''Horror night''\<rparr>, exampleVideo, exampleVideo\<lparr>idV := ''v2''\<rparr>]
     = Some (exampleVideo\<lparr>title := ''Horror night''\<rparr>)
   \<and> rejected asciiLowerCase [''horror''] [] (exampleVideo\<lparr>title := ''Horror night''\<rparr>)
   \<and> \<not> rejected asciiLowerCase [''horror''] [] exampleVideo
   \<and> ''v1'' \<notin> idV ` set (analyzeCombined asciiLowerCase [''horror''] [] (\<lambda>k. False) (\<lambda>i. 0)
        [exampleVideo\<lparr>title := ''Horror night''\<rparr>, exampleVideo, exampleVideo\<lparr>idV := ''v2''\<rparr>])
   \<and> map idV (analyzeCombined asciiLowerCase [''horror''] [] (\<lambda>k. False) (\<lambda>i. 0)
        [exampleVideo, exampleVideo\<lparr>idV := ''v2''\<rparr>]) = [''v2'', ''v1'']"
proof -
  let ?h = "exampleVideo\<lparr>title := ''Horror night''\<rparr>"
  let ?l = "[?h, exampleVideo, exampleVideo\<lparr>idV := ''v2''\<rparr>]"
  have a: "find (\<lambda>w. idV w = ''v1'') ?l = Some ?h" by code_simp
  have b: "rejected asciiLowerCase [''horror''] [] ?h" by code_simp
  have c: "\<not> rejected asciiLowerCase [''horror''] [] exampleVideo" by code_simp
  have d: "map idV (analyzeCombined asciiLowerCase [''horror''] [] (\<lambda>k. False) (\<lambda>i. 0)
        [exampleVideo, exampleVideo\<lparr>idV := ''v2''\<rparr>]) = [''v2'', ''v1'']" by code_simp
  from analyzeCombined_first_rejected [OF a b, of "\<lambda>k. False" "\<lambda>i. 0"] a b c d
  show ?thesis by blast
qed

section \<open>Failing requests\<close>

text \<open>
  Everywhere else a failing request is recovered: the searches and the comfort requests
  never reject, so \<open>getXraiRecommendations\<close> is rejected only through the recommended
  feed of the fallback; \<open>getLegacyRecommendations\<close> is never rejected; and in the
  strict-filter pipeline a failing request contributes no candidate.
\<close>

lemma catchEmpty_Fulfilled: "\<exists>x. catchEmpty p = Fulfilled x"
  by (cases p) (simp_all add: catchEmpty_def)

lemma promiseAll_Fulfilled:
  "(\<And>p. p \<in> set ps \<Longrightarrow> \<exists>x. p = Fulfilled x) \<Longrightarrow> \<exists>xs. promiseAll ps = Fulfilled xs"
proof (induction ps)
  case Nil
  show ?case by simp
next
  case (Cons p ps)
  obtain x where "p = Fulfilled x" using Cons.prems [of p] by auto
  moreover obtain xs where "promiseAll ps = Fulfilled xs" using Cons by auto
  ultimately show ?case by simp
qed

lemma getLegacyRecommendations_fulfilled: "\<exists>vs. getLegacyRecommendations api draws = Fulfilled vs"
  by (cases "getRecommendedVideos api") (simp_all add: getLegacyRecommendations_def)

lemma promiseAll_pair:
  "promiseAll [a, b] =
     (case a of Rejected e \<Rightarrow> Rejected e
      | Fulfilled x \<Rightarrow> (case b of Rejected e \<Rightarrow> Rejected e | Fulfilled y \<Rightarrow> Fulfilled [x, y]))"
  by (cases a; cases b) simp_all

lemma promiseAll_caught: "\<exists>xs. promiseAll (map (\<lambda>x. catchEmpty (f x)) ys) = Fulfilled xs"
  by (rule promiseAll_Fulfilled) (auto simp: catchEmpty_Fulfilled)

lemma promiseAll_append:
  "promiseAll (ps @ qs) =
     (case promiseAll ps of Rejected e \<Rightarrow> Rejected e
      | Fulfilled xs \<Rightarrow> (case promiseAll qs of Rejected e \<Rightarrow> Rejected e
                         | Fulfilled ys \<Rightarrow> Fulfilled (xs @ ys)))"
proof (induction ps rule: promiseAll.induct)
  case 1
  show ?case by (simp split: promise.splits)
next
  case (2 e ps)
  show ?case by simp
next
  case (3 x ps)
  then show ?case by (simp split: promise.splits)
qed

lemma promiseAll_single_caught: "\<exists>xs. promiseAll [catchEmpty p] = Fulfilled xs"
  using promiseAll_caught [of "\<lambda>x. x" "[p]"] by simp

lemma promiseAll_append_Fulfilled:
  assumes "\<exists>xs. promiseAll ps = Fulfilled xs" "\<exists>ys. promiseAll qs = Fulfilled ys"
  shows "\<exists>zs. promiseAll (ps @ qs) = Fulfilled zs"
  using assms by (auto simp: promiseAll_append)

lemma promiseAll_if_Fulfilled:
  "(c \<Longrightarrow> \<exists>xs. promiseAll ps = Fulfilled xs)
   \<Longrightarrow> \<exists>xs. promiseAll (if c then ps else []) = Fulfilled xs"
  by simp

lemma searchPromises_fulfilled: "\<exists>xs. promiseAll (searchPromises api xrai sources) = Fulfilled xs"
  unfolding searchPromises_def
proof (rule promiseAll_append_Fulfilled)
  show "\<exists>xs. promiseAll (if 0 < length (topKeywords xrai sources)
          then map (\<lambda>chunk. catchEmpty (searchVideos api (joinWith '' OR '' chunk) (Some (page_x sources))))
                 (chunkArray (topKeywords xrai sources) 3)
          else []) = Fulfilled xs"
    by (rule promiseAll_if_Fulfilled) (rule promiseAll_caught)
  show "\<exists>ys. promiseAll (if length (topKeywords xrai sources) = 0 \<and> page_x sources = 1
          then [catchEmpty (searchVideos api ''trending Japan'' (Some 1))] else []) = Fulfilled ys"
    by (rule promiseAll_if_Fulfilled) (rule promiseAll_single_caught)
qed

lemma comfortPromises_fulfilled: "\<exists>xs. promiseAll (comfortPromises api rnd sources) = Fulfilled xs"
  unfolding comfortPromises_def Let_def
proof (rule promiseAll_append_Fulfilled)
  show "\<exists>xs. promiseAll (if 0 < length (watchHistory_x sources)
          then [catchEmpty (thenP (\<lambda>related. case related of None \<Rightarrow> [] | Some r \<Rightarrow> r)
                  (getVideoDetails api (idV (watchHistory_x sources !
                     floorRandom (recentDraw rnd) (min (length (watchHistory_x sources)) 5)))))]
          else []) = Fulfilled xs"
    by (rule promiseAll_if_Fulfilled) (rule promiseAll_single_caught)
  show "\<exists>ys. promiseAll (if 0 < length (subscribedChannels_x sources)
          then map (\<lambda>sub. catchEmpty (thenP (take 8) (getChannelVideos api (idC sub))))
                 (take 2 (shuffleArray (shuffleDraws rnd) (subscribedChannels_x sources)))
          else []) = Fulfilled ys"
    by (rule promiseAll_if_Fulfilled) (rule promiseAll_caught)
qed

lemma getXraiRecommendations_rejected_only_by_fallback:
  assumes "getXraiRecommendations api xrai rnd sources = Rejected e"
  shows "getRecommendedVideos api = Rejected e \<and> watchHistory_x sources = []
         \<and> subscribedChannels_x sources = [] \<and> topKeywords xrai sources = []
         \<and> page_x sources \<noteq> 1"
proof -
  obtain xs where xs: "promiseAll (searchPromises api xrai sources) = Fulfilled xs"
    using searchPromises_fulfilled by blast
  obtain ys where ys: "promiseAll (comfortPromises api rnd sources) = Fulfilled ys"
    using comfortPromises_fulfilled by blast
  define c where "c \<longleftrightarrow> watchHistory_x sources = [] \<and> subscribedChannels_x sources = []
         \<and> topKeywords xrai sources = [] \<and> searchPromises api xrai sources = []"
  have dp: "discoveryPromises api xrai sources
      = searchPromises api xrai sources @ (if c then [getRecommendedVideos api] else [])"
    by (simp add: discoveryPromises_def c_def)
  have rej: "promiseAll (discoveryPromises api xrai sources) = Rejected e"
    using assms ys by (simp add: getXraiRecommendations_def promiseAll_pair split: promise.splits)
  have c: c
  proof (rule ccontr)
    assume "\<not> c"
    then show False using rej xs by (simp add: dp)
  qed
  then have "promiseAll [getRecommendedVideos api] = Rejected e"
    using rej xs by (simp add: dp promiseAll_append split: promise.splits)
  then have g: "getRecommendedVideos api = Rejected e"
    by (cases "getRecommendedVideos api") simp_all
  have "page_x sources \<noteq> 1"
  proof
    assume "page_x sources = 1"
    then have "searchPromises api xrai sources \<noteq> []" using c by (simp add: searchPromises_def c_def)
    then show False using c by (simp add: c_def)
  qed
  then show ?thesis using g c by (simp add: c_def)
qed

lemma getXraiRecommendations_fallback_rejected:
  assumes "watchHistory_x sources = []" "subscribedChannels_x sources = []"
    and "topKeywords xrai sources = []" and "page_x sources \<noteq> 1"
    and "getRecommendedVideos api = Rejected e"
  shows "getXraiRecommendations api xrai rnd sources = Rejected e"
  using assms
  by (simp add: getXraiRecommendations_def discoveryPromises_def searchPromises_def)

lemma getXraiRecommendations_rejected_iff:
  "getXraiRecommendations api xrai rnd sources = Rejected e \<longleftrightarrow>
     getRecommendedVideos api = Rejected e \<and> watchHistory_x sources = []
     \<and> subscribedChannels_x sources = [] \<and> topKeywords xrai sources = []
     \<and> page_x sources \<noteq> 1"
  using getXraiRecommendations_rejected_only_by_fallback [of api xrai rnd sources e]
    getXraiRecommendations_fallback_rejected [of sources xrai api e rnd]
  by blast

lemma collectCandidates_append:
  "collectCandidates (ps @ qs) = collectCandidates ps @ collectCandidates qs"
  by (simp add: collectCandidates_concat)

lemma collectCandidates_caught:
  "collectCandidates (map (\<lambda>x. catchEmpty (f x)) xs)
     = concat (map (\<lambda>x. case f x of Fulfilled vs \<Rightarrow> vs | Rejected e \<Rightarrow> []) xs)"
proof -
  have "(case catchEmpty p of Fulfilled vs \<Rightarrow> vs | Rejected e \<Rightarrow> [])
      = (case p of Fulfilled vs \<Rightarrow> vs | Rejected e \<Rightarrow> [])" for p :: "'a list promise"
    by (cases p) (simp_all add: catchEmpty_def)
  then show ?thesis by (simp add: collectCandidates_concat comp_def)
qed

lemma fetchPromises_recover:
  "collectCandidates (fetchPromises api uniqueQueries subsToFetch)
     = concat (map (\<lambda>q. case searchVideos api q None of Fulfilled vs \<Rightarrow> vs | Rejected e \<Rightarrow> [])
                 uniqueQueries)
       @ concat (map (\<lambda>sub. case getChannelVideos api (idC sub) of
                                Fulfilled vs \<Rightarrow> map (annotate sub) vs | Rejected e \<Rightarrow> [])
                   subsToFetch)"
proof -
  have "(case thenP g p of Fulfilled vs \<Rightarrow> vs | Rejected e \<Rightarrow> [])
      = (case p of Fulfilled vs \<Rightarrow> g vs | Rejected e \<Rightarrow> [])"
    for p :: "Video list promise" and g :: "Video list \<Rightarrow> Video list"
    by (cases p) (simp_all add: thenP_def)
  then show ?thesis
    by (simp add: fetchPromises_def collectCandidates_append collectCandidates_caught)
qed

text \<open>
  Claim C6 fails on the code.  For a user without history, subscriptions and keywords who
  asks for a page other than 1, \<open>getXraiRecommendations\<close> requests the recommended feed
  without a \<open>.catch\<close>, and the join is \<open>Promise.all\<close>: when that one request fails, the
  promise that the function returns is rejected with the reason of the failure.
\<close>

theorem getXraiRecommendations_rejects:
  "getXraiRecommendations failingApi plainXrai zeroDraws newUserSource = Rejected ''network error''"
  by code_simp

end
